theory Spec2Isabelle
  imports Main "HOL-Library.Word"
begin

unbundle bit_operations_syntax

section \<open>Social-media preview generator: shallow embedding\<close>

text \<open>
  The embedded program is the preview route of stampchain.io (the second document of
  \<^verbatim>\<open>src/routes/sitemap.xml.ts\<close>). JavaScript numbers that hold integers are modelled as
  \<open>int\<close>, thrown exceptions as the left summand of a sum type, \<open>null\<close> as \<open>None\<close>.
  Texts of the program (literals, URLs, declared types, messages) are lists of 8-bit code
  units; texts read from the network are lists of UTF-16 code units.
\<close>

subsection \<open>Exceptions and counted loops\<close>

text \<open>A thrown JavaScript error: its \<open>name\<close> and its \<open>message\<close>.\<close>

datatype js_error = JsError (err_name: string) (err_message: string)

definition RangeError :: js_error where
  "RangeError = JsError ''RangeError'' ''Tried referencing a pixel outside of the images boundaries''"

text \<open>
  \<^verbatim>\<open>for (let i = lo; i < hi; i++) body\<close>, where the body may throw (the loop stops with
  the error) or \<^verbatim>\<open>continue\<close> (the body returns the state unchanged).
\<close>

function for_loop :: "int \<Rightarrow> int \<Rightarrow> (int \<Rightarrow> 's \<Rightarrow> js_error + 's) \<Rightarrow> 's \<Rightarrow> js_error + 's" where
  "for_loop i hi body s =
     (if i < hi
      then (case body i s of Inl e \<Rightarrow> Inl e | Inr s' \<Rightarrow> for_loop (i + 1) hi body s')
      else Inr s)"
  by pat_completeness auto
termination
  by (relation "measure (\<lambda>(i, hi, body, s). nat (hi - i))") auto

declare for_loop.simps [simp del]

subsection \<open>Bitmaps (the ImageScript \<open>Image\<close> class, as far as the route uses it)\<close>

type_synonym pixel = "32 word"

text \<open>Pixel coordinates are 1-based: \<open>bitmap img (x, y)\<close> for \<open>1 \<le> x \<le> width\<close>, \<open>1 \<le> y \<le> height\<close>.\<close>

record image =
  width :: int
  height :: int
  bitmap :: "int \<times> int \<Rightarrow> pixel"

definition in_bounds :: "image \<Rightarrow> int \<Rightarrow> int \<Rightarrow> bool" where
  "in_bounds img x y \<longleftrightarrow> 1 \<le> x \<and> x \<le> width img \<and> 1 \<le> y \<and> y \<le> height img"

definition new_Image :: "int \<Rightarrow> int \<Rightarrow> image" where
  "new_Image w h = \<lparr>width = w, height = h, bitmap = (\<lambda>_. 0)\<rparr>"

definition fill :: "pixel \<Rightarrow> image \<Rightarrow> image" where
  "fill c img = img\<lparr>bitmap := (\<lambda>(x, y). if in_bounds img x y then c else bitmap img (x, y))\<rparr>"

definition getPixelAt :: "image \<Rightarrow> int \<Rightarrow> int \<Rightarrow> js_error + pixel" where
  "getPixelAt img x y = (if in_bounds img x y then Inr (bitmap img (x, y)) else Inl RangeError)"

definition setPixelAt :: "image \<Rightarrow> int \<Rightarrow> int \<Rightarrow> pixel \<Rightarrow> js_error + image" where
  "setPixelAt img x y c =
     (if in_bounds img x y then Inr (img\<lparr>bitmap := (bitmap img)((x, y) := c)\<rparr>) else Inl RangeError)"

subsection \<open>Integer upscale (\<open>renderRasterPreview\<close>, lines 371-402)\<close>

definition targetSize :: int where
  "targetSize = 1200"

text \<open>
  \<^verbatim>\<open>Math.floor(targetSize / d)\<close> is \<open>targetSize div d\<close> for the positive dimensions of a
  decoded image.
\<close>

definition rawScale :: "int \<Rightarrow> int \<Rightarrow> int" where
  "rawScale w h = (let maxDimension = max w h in max 2 (targetSize div maxDimension))"

definition scale_of :: "int \<Rightarrow> int \<Rightarrow> int" where
  "scale_of w h = min (rawScale w h) (min (targetSize div w) (targetSize div h))"

text \<open>The innermost loop, over \<open>dx\<close>: one row of the block of source pixel \<open>x\<close>.\<close>

definition upscale_dx_loop :: "int \<Rightarrow> int \<Rightarrow> int \<Rightarrow> int \<Rightarrow> pixel \<Rightarrow> image \<Rightarrow> js_error + image" where
  "upscale_dx_loop offsetX x scale py pixel =
     for_loop 0 scale (\<lambda>dx outputImage.
       let px = offsetX + x * scale + dx + 1 in
       if px < 1 \<or> px > targetSize then Inr outputImage
       else setPixelAt outputImage px py pixel)"

definition upscale_dy_loop :: "int \<Rightarrow> int \<Rightarrow> int \<Rightarrow> int \<Rightarrow> int \<Rightarrow> pixel \<Rightarrow> image \<Rightarrow> js_error + image" where
  "upscale_dy_loop offsetX offsetY x y scale pixel =
     for_loop 0 scale (\<lambda>dy outputImage.
       let py = offsetY + y * scale + dy + 1 in
       if py < 1 \<or> py > targetSize then Inr outputImage
       else upscale_dx_loop offsetX x scale py pixel outputImage)"

definition upscale_x_loop :: "image \<Rightarrow> int \<Rightarrow> int \<Rightarrow> int \<Rightarrow> int \<Rightarrow> image \<Rightarrow> js_error + image" where
  "upscale_x_loop sourceImage offsetX offsetY y scale =
     for_loop 0 (width sourceImage) (\<lambda>x outputImage.
       case getPixelAt sourceImage (x + 1) (y + 1) of
         Inl e \<Rightarrow> Inl e
       | Inr pixel \<Rightarrow> upscale_dy_loop offsetX offsetY x y scale pixel outputImage)"

definition upscale_y_loop :: "image \<Rightarrow> int \<Rightarrow> int \<Rightarrow> int \<Rightarrow> image \<Rightarrow> js_error + image" where
  "upscale_y_loop sourceImage offsetX offsetY scale =
     for_loop 0 (height sourceImage) (\<lambda>y outputImage.
       upscale_x_loop sourceImage offsetX offsetY y scale outputImage)"

text \<open>
  From \<^verbatim>\<open>const maxDimension\<close> to the end of the pixel loops: the canvas and the scale
  factor that the function goes on to encode and to report.
\<close>

definition upscale :: "image \<Rightarrow> js_error + (image \<times> int)" where
  "upscale sourceImage =
     (let scale = scale_of (width sourceImage) (height sourceImage);
          scaledWidth = width sourceImage * scale;
          scaledHeight = height sourceImage * scale;
          outputImage = fill 0 (new_Image targetSize targetSize);
          offsetX = (targetSize - scaledWidth) div 2;
          offsetY = (targetSize - scaledHeight) div 2
      in case upscale_y_loop sourceImage offsetX offsetY scale outputImage of
           Inl e \<Rightarrow> Inl e
         | Inr out \<Rightarrow> Inr (out, scale))"

subsection \<open>Base64 (\<open>btoa\<close>, \<open>atob\<close>) and the cache codec (\<open>toBase64\<close>, \<open>fromBase64\<close>)\<close>

type_synonym byte = "8 word"

definition InvalidCharacterError :: js_error where
  "InvalidCharacterError = JsError ''InvalidCharacterError'' ''Failed to decode base64''"

definition b64_alphabet :: string where
  "b64_alphabet = ''ABCDEFGHIJKLMNOPQRSTUVWXYZabcdefghijklmnopqrstuvwxyz0123456789+/''"

definition b64_char :: "nat \<Rightarrow> char" where
  "b64_char n = b64_alphabet ! n"

fun index_from :: "nat \<Rightarrow> char \<Rightarrow> string \<Rightarrow> nat option" where
  "index_from i c [] = None"
| "index_from i c (d # ds) = (if c = d then Some i else index_from (Suc i) c ds)"

definition b64_value :: "char \<Rightarrow> nat option" where
  "b64_value c = index_from 0 c b64_alphabet"

text \<open>
  The platform's \<open>btoa\<close>: every group of three code units gives four characters of the
  alphabet; a last group of one or two code units is padded with \<open>=\<close>. A code unit above
  255 would throw; the code units of this model are 8 bits wide.
\<close>

fun b64_encode :: "nat list \<Rightarrow> string" where
  "b64_encode [] = []"
| "b64_encode [a] = [b64_char (a div 4), b64_char ((a mod 4) * 16), CHR ''='', CHR ''='']"
| "b64_encode [a, b] =
     [b64_char (a div 4), b64_char ((a mod 4) * 16 + b div 16), b64_char ((b mod 16) * 4), CHR ''='']"
| "b64_encode (a # b # c # rest) =
     [b64_char (a div 4), b64_char ((a mod 4) * 16 + b div 16),
      b64_char ((b mod 16) * 4 + c div 64), b64_char (c mod 64)] @ b64_encode rest"

definition btoa :: "string \<Rightarrow> js_error + string" where
  "btoa s = Inr (b64_encode (map of_char s))"

text \<open>
  The platform's \<open>atob\<close> (forgiving base64 decoding): ASCII whitespace is removed; if the
  length is a multiple of four, one or two trailing \<open>=\<close> are removed; a length of 1 modulo 4
  or a character outside the alphabet throws; every four characters give three code units,
  and a last group of two or three characters gives one or two.
\<close>

definition is_ascii_whitespace :: "char \<Rightarrow> bool" where
  "is_ascii_whitespace c \<longleftrightarrow> of_char c \<in> {9, 10, 12, 13, 32 :: nat}"

definition strip_padding :: "string \<Rightarrow> string" where
  "strip_padding s =
     (if length s mod 4 = 0
      then (case rev s of
              c1 # c2 # r \<Rightarrow>
                if c1 = CHR ''='' \<and> c2 = CHR ''='' then rev r
                else if c1 = CHR ''='' then rev (c2 # r) else s
            | [c1] \<Rightarrow> if c1 = CHR ''='' then [] else s
            | [] \<Rightarrow> s)
      else s)"

fun b64_decode :: "nat list \<Rightarrow> nat list" where
  "b64_decode (a # b # c # d # rest) =
     [a * 4 + b div 16, (b mod 16) * 16 + c div 4, (c mod 4) * 64 + d] @ b64_decode rest"
| "b64_decode [a, b, c] = [a * 4 + b div 16, (b mod 16) * 16 + c div 4]"
| "b64_decode [a, b] = [a * 4 + b div 16]"
| "b64_decode _ = []"

definition atob :: "string \<Rightarrow> js_error + string" where
  "atob data =
     (let d = strip_padding (filter (\<lambda>c. \<not> is_ascii_whitespace c) data) in
      if length d mod 4 = 1 then Inl InvalidCharacterError
      else case those (map b64_value d) of
             None \<Rightarrow> Inl InvalidCharacterError
           | Some sextets \<Rightarrow> Inr (map char_of (b64_decode sextets)))"

text \<open>
  \<open>toBase64\<close>: \<^verbatim>\<open>binary += String.fromCharCode(data[i])\<close> for every byte, then \<open>btoa\<close>.
  \<open>fromBase64\<close>: \<open>atob\<close>, then \<^verbatim>\<open>bytes[i] = binary.charCodeAt(i)\<close>.
\<close>

definition toBase64 :: "byte list \<Rightarrow> js_error + string" where
  "toBase64 data = btoa (map (\<lambda>b. char_of (unat b)) data)"

definition fromBase64 :: "string \<Rightarrow> js_error + byte list" where
  "fromBase64 b64 =
     (case atob b64 of
        Inl e \<Rightarrow> Inl e
      | Inr binary \<Rightarrow> Inr (map (\<lambda>c. of_nat (of_char c)) binary))"

subsection \<open>String operations\<close>

text \<open>
  \<^verbatim>\<open>s.startsWith(p)\<close>, \<^verbatim>\<open>s.includes(p)\<close> (as \<open>js_includes\<close>) on sequences of code units of
  any width, and \<^verbatim>\<open>s.toLowerCase()\<close> on 8-bit code units.
\<close>

definition startsWith :: "'a list \<Rightarrow> 'a list \<Rightarrow> bool" where
  "startsWith s p \<longleftrightarrow> take (length p) s = p"

fun js_includes :: "'a list \<Rightarrow> 'a list \<Rightarrow> bool" where
  "js_includes [] p \<longleftrightarrow> p = []"
| "js_includes (c # cs) p \<longleftrightarrow> startsWith (c # cs) p \<or> js_includes cs p"

definition lower_char :: "char \<Rightarrow> char" where
  "lower_char c =
     (let n = of_char c :: nat in
      if (65 \<le> n \<and> n \<le> 90) \<or> (192 \<le> n \<and> n \<le> 222 \<and> n \<noteq> 215) then char_of (n + 32) else c)"

definition toLowerCase :: "string \<Rightarrow> string" where
  "toLowerCase s = map lower_char s"

text \<open>
  Text that the route reads from the network is a sequence of UTF-16 code units. A text of
  the program itself (a literal, a URL, a declared type) is written with 8-bit code units
  and embedded by \<open>u16\<close>.
\<close>

type_synonym code_unit = "16 word"

type_synonym js_text = "code_unit list"

definition u16 :: "string \<Rightarrow> js_text" where
  "u16 s = map (\<lambda>c. of_nat (of_char c)) s"

text \<open>
  \<^verbatim>\<open>response.text()\<close>: UTF-8 decoding without failure. A leading byte order mark is
  dropped; an ill-formed sequence gives U+FFFD and the byte that broke it is read again;
  a code point above U+FFFF gives a surrogate pair. The state of the decoder is the code
  point so far, the number of bytes still needed, and the bounds for the next byte.
\<close>

function utf8_decode :: "int \<Rightarrow> nat \<Rightarrow> int \<Rightarrow> int \<Rightarrow> 8 word list \<Rightarrow> int list" where
  "utf8_decode cp needed lower upper [] = (if needed \<noteq> 0 then [0xFFFD] else [])"
| "utf8_decode cp needed lower upper (b # bs) =
     (let n = uint b in
      if needed = 0 then
        (if n \<le> 0x7F then n # utf8_decode 0 0 0x80 0xBF bs
         else if 0xC2 \<le> n \<and> n \<le> 0xDF then utf8_decode (n mod 32) 1 0x80 0xBF bs
         else if 0xE0 \<le> n \<and> n \<le> 0xEF
           then utf8_decode (n mod 16) 2 (if n = 0xE0 then 0xA0 else 0x80)
                  (if n = 0xED then 0x9F else 0xBF) bs
         else if 0xF0 \<le> n \<and> n \<le> 0xF4
           then utf8_decode (n mod 8) 3 (if n = 0xF0 then 0x90 else 0x80)
                  (if n = 0xF4 then 0x8F else 0xBF) bs
         else 0xFFFD # utf8_decode 0 0 0x80 0xBF bs)
      else if n < lower \<or> upper < n then 0xFFFD # utf8_decode 0 0 0x80 0xBF (b # bs)
      else if needed = 1 then (cp * 64 + n mod 64) # utf8_decode 0 0 0x80 0xBF bs
      else utf8_decode (cp * 64 + n mod 64) (needed - 1) 0x80 0xBF bs)"
  by pat_completeness auto
termination
  by (relation "measure (\<lambda>(cp, needed, lower, upper, bs). 2 * length bs + (if needed = 0 then 0 else 1))")
    auto

definition utf16_units :: "int \<Rightarrow> js_text" where
  "utf16_units cp =
     (if cp < 0x10000 then [of_int cp]
      else [of_int (0xD800 + (cp - 0x10000) div 1024), of_int (0xDC00 + (cp - 0x10000) mod 1024)])"

definition strip_bom :: "8 word list \<Rightarrow> 8 word list" where
  "strip_bom bytes =
     (case bytes of
        b1 # b2 # b3 # rest \<Rightarrow> if b1 = 0xEF \<and> b2 = 0xBB \<and> b3 = 0xBF then rest else bytes
      | _ \<Rightarrow> bytes)"

definition text_of :: "8 word list \<Rightarrow> js_text" where
  "text_of bytes = concat (map utf16_units (utf8_decode 0 0 0x80 0xBF (strip_bom bytes)))"

text \<open>
  The regular expressions of the route are sequences of literals, single character classes
  and greedy repetitions of a character class. In each of them the character that must
  follow a repetition lies outside the repeated class, so that the greedy match is the only
  candidate and no backtracking is needed. \<open>rx_match_here\<close> matches at the start of the
  text and returns the texts of the repetitions; \<open>rx_search\<close> finds the leftmost match.
\<close>

datatype 'a rx = Lit "'a list" | One "'a \<Rightarrow> bool" | Many nat "'a \<Rightarrow> bool"

fun rx_match_here :: "'a rx list \<Rightarrow> 'a list \<Rightarrow> 'a list list option" where
  "rx_match_here [] s = Some []"
| "rx_match_here (Lit l # rs) s =
     (if startsWith s l then rx_match_here rs (drop (length l) s) else None)"
| "rx_match_here (One p # rs) s =
     (case s of [] \<Rightarrow> None | c # s' \<Rightarrow> if p c then rx_match_here rs s' else None)"
| "rx_match_here (Many n p # rs) s =
     (if n \<le> length (takeWhile p s)
      then map_option (Cons (takeWhile p s)) (rx_match_here rs (dropWhile p s))
      else None)"

fun rx_search :: "'a rx list \<Rightarrow> 'a list \<Rightarrow> 'a list list option" where
  "rx_search rs [] = rx_match_here rs []"
| "rx_search rs (c # cs) =
     (case rx_match_here rs (c # cs) of Some caps \<Rightarrow> Some caps | None \<Rightarrow> rx_search rs cs)"

definition rx_test :: "'a rx list \<Rightarrow> 'a list \<Rightarrow> bool" where
  "rx_test rs s \<longleftrightarrow> rx_search rs s \<noteq> None"

text \<open>
  The classes \<^verbatim>\<open>\s\<close> (white space and line terminators of ECMAScript), \<^verbatim>\<open>\d\<close>,
  \<^verbatim>\<open>["']\<close> and \<^verbatim>\<open>[^"']\<close> on UTF-16 code units.
\<close>

definition rx_space :: "code_unit \<Rightarrow> bool" where
  "rx_space c \<longleftrightarrow>
     c \<in> {0x09, 0x0A, 0x0B, 0x0C, 0x0D, 0x20, 0xA0, 0x1680, 0x2028, 0x2029, 0x202F, 0x205F,
           0x3000, 0xFEFF} \<or>
     (0x2000 \<le> c \<and> c \<le> 0x200A)"

definition rx_digit :: "code_unit \<Rightarrow> bool" where
  "rx_digit c \<longleftrightarrow> 0x30 \<le> c \<and> c \<le> 0x39"

definition rx_quote :: "code_unit \<Rightarrow> bool" where
  "rx_quote c \<longleftrightarrow> c = 0x22 \<or> c = 0x27"

definition rx_not_quote :: "code_unit \<Rightarrow> bool" where
  "rx_not_quote c \<longleftrightarrow> \<not> rx_quote c"

text \<open>
  \<^verbatim>\<open>s.split(sep).pop()\<close> for a non-empty separator: the text after the last separator
  found by the left-to-right, non-overlapping scan (the whole string when there is none).
\<close>

function split_pop :: "string \<Rightarrow> string \<Rightarrow> string \<Rightarrow> string" where
  "split_pop sep acc [] = rev acc"
| "split_pop sep acc (c # cs) =
     (if startsWith (c # cs) sep \<and> sep \<noteq> []
      then split_pop sep [] (drop (length sep - 1) cs)
      else split_pop sep (c # acc) cs)"
  by pat_completeness auto
termination
  by (relation "measure (\<lambda>(sep, acc, s). length s)") auto

text \<open>\<^verbatim>\<open>s.replace(/\.html?$/i, "")\<close>: a trailing \<open>.html\<close> or \<open>.htm\<close>, in any case, is removed.\<close>

definition endsWith :: "string \<Rightarrow> string \<Rightarrow> bool" where
  "endsWith s p \<longleftrightarrow> length p \<le> length s \<and> drop (length s - length p) s = p"

definition strip_html_suffix :: "string \<Rightarrow> string" where
  "strip_html_suffix s =
     (if endsWith (toLowerCase s) ''.html'' then take (length s - 5) s
      else if endsWith (toLowerCase s) ''.htm'' then take (length s - 4) s
      else s)"

text \<open>\<^verbatim>\<open>n.toString()\<close> for an integer.\<close>

function digits_of :: "nat \<Rightarrow> string" where
  "digits_of n = (if n < 10 then [char_of (48 + n)] else digits_of (n div 10) @ [char_of (48 + n mod 10)])"
  by pat_completeness auto
termination
  by (relation "measure id") auto

declare digits_of.simps [simp del]

definition toString :: "int \<Rightarrow> string" where
  "toString n = (if n < 0 then CHR ''-'' # digits_of (nat (- n)) else digits_of (nat n))"

subsection \<open>The world outside the route\<close>

text \<open>
  The request body of the rendering worker (\<open>params\<close> of \<open>renderWithCloudflare\<close>); an
  absent field is \<open>None\<close>.
\<close>

record cf_params =
  req_url :: "js_text option"
  req_html :: "js_text option"
  req_viewport :: "(int \<times> int) option"
  req_delay :: "int option"
  req_timeout :: "int option"

text \<open>
  What a \<open>fetch\<close> gives: a response with its status and its body (reading the body may
  throw), or a thrown error.
\<close>

datatype http_result = Response (resp_status: int) (resp_body: "js_error + byte list") | FetchThrew js_error

definition response_ok :: "int \<Rightarrow> bool" where
  "response_ok st \<longleftrightarrow> 200 \<le> st \<and> st \<le> 299"

text \<open>
  The observable actions of the route, in the order in which they happen: the metadata
  lookup, a fetch of the content, one POST to the rendering worker (with the abort timeout
  that guards it), a back-off sleep, and a run of the vector rasterizer.
\<close>

datatype event =
    Resolve string
  | FetchContent string
  | Attempt cf_params int
  | Sleep int
  | Rasterize js_text

text \<open>
  Resolved metadata of a stamp (\<open>StampController.getSpecificStamp\<close>); \<open>stamp_no\<close> is the
  field \<^verbatim>\<open>stamp\<close>.
\<close>

record stamp_data =
  stamp_url :: "string option"
  stamp_mimetype :: "string option"
  stamp_no :: "int option"

text \<open>The stored artifact: the base64 PNG and its metadata headers.\<close>

record cached_preview =
  png :: string
  meta :: "string \<rightharpoonup> string"

text \<open>
  Everything the route calls and does not define. The answers of the network and the
  clock (\<^verbatim>\<open>Date.now()\<close>) may depend on all that happened before, so they take the trace
  so far. The decoders and the helpers of \<^verbatim>\<open>$lib\<close> are functions of their arguments.
  The PNG encoder (\<^verbatim>\<open>image.encode(9)\<close> of ImageScript) also reads the clock, for the
  creation time that it writes into the file: \<open>encode_png W now img\<close>. \<open>center_resized\<close> is the
  floating-point resize and composite of \<open>centerOnCanvas\<close>; \<open>rasterize_svg\<close> is the
  vector rasterizer path of \<open>renderSvgPreview\<close> after the foreign-markup test;
  \<open>bar_height i r\<close> is
  \<^verbatim>\<open>Math.floor(maxBarHeight * (Math.sin(i / 64 * Math.PI) * 0.7 + 0.3) * (0.3 + r / 1000))\<close>
  and \<open>tri_half_width row\<close> is
  \<^verbatim>\<open>Math.floor(((row + triSize) / (triSize * 2)) * triSize)\<close>, both in floating point.
\<close>

record world =
  cf_configured :: bool
  cf_worker :: "event list \<Rightarrow> cf_params \<Rightarrow> http_result"
  fetch_content :: "event list \<Rightarrow> string \<Rightarrow> http_result"
  getSpecificStamp :: "event list \<Rightarrow> string \<Rightarrow> js_error + stamp_data option"
  decode_image :: "byte list \<Rightarrow> js_error + image"
  decode_gif :: "byte list \<Rightarrow> js_error + image list"
  date_now :: "event list \<Rightarrow> int"
  encode_png :: "int \<Rightarrow> image \<Rightarrow> js_error + byte list"
  center_resized :: "image \<Rightarrow> js_error + image"
  rasterize_svg :: "js_text \<Rightarrow> string \<Rightarrow> int option \<Rightarrow> js_error + cached_preview"
  cleanHtmlForRendering :: "js_text \<Rightarrow> js_text"
  bar_height :: "int \<Rightarrow> int \<Rightarrow> int"
  tri_half_width :: "int \<Rightarrow> int"

subsection \<open>The remote browser-renderer client (\<open>renderWithCloudflare\<close>)\<close>

definition maxRetries :: int where
  "maxRetries = 2"

definition retryDelays :: "int list" where
  "retryDelays = [2000, 4000]"

definition isAbort :: "js_error \<Rightarrow> bool" where
  "isAbort error \<longleftrightarrow>
     js_includes (toLowerCase (err_message error)) ''abort'' \<or>
     err_name error = ''AbortError'' \<or> err_name error = ''TimeoutError''"

definition isRetryable :: "js_error \<Rightarrow> bool" where
  "isRetryable error \<longleftrightarrow>
     \<not> isAbort error \<and>
     (js_includes (err_message error) ''network'' \<or>
      js_includes (err_message error) ''ECONNREFUSED'' \<or>
      js_includes (err_message error) ''ETIMEDOUT'')"

text \<open>
  One pass through the loop body, given what the fetch gave: \<open>Return r\<close> for a
  \<^verbatim>\<open>return\<close>, \<open>Retry\<close> for the sleep followed by \<^verbatim>\<open>continue\<close>.
\<close>

datatype attempt_result = Return "byte list option" | Retry

definition cf_attempt :: "http_result \<Rightarrow> int \<Rightarrow> attempt_result" where
  "cf_attempt outcome attempt =
     (let caught = (\<lambda>error. if isRetryable error \<and> attempt < maxRetries then Retry else Return None) in
      case outcome of
        FetchThrew error \<Rightarrow> caught error
      | Response st b \<Rightarrow>
          if response_ok st
          then (case b of Inl error \<Rightarrow> caught error | Inr buffer \<Rightarrow> Return (Some buffer))
          else if st \<ge> 500 \<and> attempt < maxRetries then Retry
          else Return None)"

function cf_loop :: "world \<Rightarrow> cf_params \<Rightarrow> int \<Rightarrow> int \<Rightarrow> event list \<Rightarrow> byte list option \<times> event list" where
  "cf_loop W params fetchTimeout attempt tr =
     (if attempt \<le> maxRetries
      then (case cf_attempt (cf_worker W tr params) attempt of
              Return r \<Rightarrow> (r, tr @ [Attempt params fetchTimeout])
            | Retry \<Rightarrow>
                cf_loop W params fetchTimeout (attempt + 1)
                  (tr @ [Attempt params fetchTimeout, Sleep (retryDelays ! nat attempt)]))
      else (None, tr))"
  by pat_completeness auto
termination
  by (relation "measure (\<lambda>(W, params, fetchTimeout, attempt, tr). nat (maxRetries + 1 - attempt))") auto

declare cf_loop.simps [simp del]

definition renderWithCloudflare :: "world \<Rightarrow> cf_params \<Rightarrow> event list \<Rightarrow> byte list option \<times> event list" where
  "renderWithCloudflare W params tr =
     (if \<not> cf_configured W then (None, tr)
      else let fetchTimeout = (case req_timeout params of None \<Rightarrow> 30000 | Some t \<Rightarrow> t)
           in cf_loop W params fetchTimeout 0 tr)"

subsection \<open>Shared helpers of the renderers\<close>

text \<open>\<^verbatim>\<open>stampNumber?.toString() || "unknown"\<close>.\<close>

definition stamp_number_header :: "int option \<Rightarrow> string" where
  "stamp_number_header stampNumber = (case stampNumber of None \<Rightarrow> ''unknown'' | Some n \<Rightarrow> toString n)"

definition full_viewport :: "(int \<times> int) option" where
  "full_viewport = Some (1200, 1200)"

text \<open>
  \<open>centerOnCanvas\<close>: decode the screenshot, resize and composite it on the canvas, encode
  (at the time \<open>now\<close>). No caller passes \<open>contentBounds\<close>.
\<close>

definition centerOnCanvas :: "world \<Rightarrow> int \<Rightarrow> byte list \<Rightarrow> int option \<Rightarrow> string \<Rightarrow> string \<Rightarrow> js_error + cached_preview" where
  "centerOnCanvas W now screenshotBuffer stampNumber mimetype method =
     (case decode_image W screenshotBuffer of
        Inl e \<Rightarrow> Inl e
      | Inr sourceImage \<Rightarrow>
     (case center_resized W sourceImage of
        Inl e \<Rightarrow> Inl e
      | Inr outputImage \<Rightarrow>
     (case encode_png W now outputImage of
        Inl e \<Rightarrow> Inl e
      | Inr pngBuffer \<Rightarrow>
     (case toBase64 pngBuffer of
        Inl e \<Rightarrow> Inl e
      | Inr b64 \<Rightarrow>
          Inr \<lparr>png = b64,
               meta = [''X-Stamp-Number'' \<mapsto> stamp_number_header stampNumber,
                       ''X-Original-Type'' \<mapsto> mimetype,
                       ''X-Conversion-Method'' \<mapsto> method,
                       ''X-Content-Size'' \<mapsto>
                          toString (width sourceImage) @ ''x'' @ toString (height sourceImage),
                       ''X-Dimensions'' \<mapsto> ''1200x1200'']\<rparr>))))"

subsection \<open>Raster images (\<open>renderRasterPreview\<close>)\<close>

text \<open>
  The \<^verbatim>\<open>try\<close> block: \<open>Inl\<close> is an error on its way to the \<^verbatim>\<open>catch\<close>, \<open>Inr None\<close>
  the \<^verbatim>\<open>return null\<close> for a GIF without frames.
\<close>

definition raster_try :: "world \<Rightarrow> int \<Rightarrow> byte list \<Rightarrow> string \<Rightarrow> int option \<Rightarrow> js_error + cached_preview option" where
  "raster_try W now imageBytes mimetype stampNumber =
     (case (if mimetype = ''image/gif''
            then (case decode_gif W imageBytes of
                    Inl e \<Rightarrow> Inl e
                  | Inr gif \<Rightarrow> (case gif of [] \<Rightarrow> Inr None | frame # _ \<Rightarrow> Inr (Some frame)))
            else (case decode_image W imageBytes of
                    Inl e \<Rightarrow> Inl e
                  | Inr img \<Rightarrow> Inr (Some img))) of
        Inl e \<Rightarrow> Inl e
      | Inr None \<Rightarrow> Inr None
      | Inr (Some sourceImage) \<Rightarrow>
     (case upscale sourceImage of
        Inl e \<Rightarrow> Inl e
      | Inr (outputImage, scale) \<Rightarrow>
     (case encode_png W now outputImage of
        Inl e \<Rightarrow> Inl e
      | Inr pngBuffer \<Rightarrow>
     (case toBase64 pngBuffer of
        Inl e \<Rightarrow> Inl e
      | Inr b64 \<Rightarrow>
          Inr (Some \<lparr>png = b64,
               meta = [''X-Stamp-Number'' \<mapsto> stamp_number_header stampNumber,
                       ''X-Original-Type'' \<mapsto> mimetype,
                       ''X-Conversion-Method'' \<mapsto> ''imagescript-upscale'',
                       ''X-Original-Size'' \<mapsto>
                          toString (width sourceImage) @ ''x'' @ toString (height sourceImage),
                       ''X-Scale-Factor'' \<mapsto> toString scale,
                       ''X-Dimensions'' \<mapsto> ''1200x1200'']\<rparr>)))))"

definition renderRasterPreview ::
  "world \<Rightarrow> string \<Rightarrow> string \<Rightarrow> int option \<Rightarrow> event list \<Rightarrow> (js_error + cached_preview option) \<times> event list" where
  "renderRasterPreview W url mimetype stampNumber tr =
     (let tr1 = tr @ [FetchContent url] in
      case fetch_content W tr url of
        FetchThrew e \<Rightarrow> (Inl e, tr1)
      | Response st b \<Rightarrow>
          if \<not> response_ok st then (Inr None, tr1)
          else (case b of
                  Inl e \<Rightarrow> (Inl e, tr1)
                | Inr imageBytes \<Rightarrow>
                    (case raster_try W (date_now W tr1) imageBytes mimetype stampNumber of
                       Inl upscaleError \<Rightarrow> (Inr None, tr1)
                     | Inr r \<Rightarrow> (Inr r, tr1))))"

subsection \<open>Full-browser paths for images and SVG\<close>

text \<open>The template of \<open>renderImageWithChrome\<close>, before and after the \<^verbatim>\<open>img\<close> element.\<close>

definition imageHtml_head :: string where
  "imageHtml_head =
     ''<!DOCTYPE html>\<newline><html><head><style>\<newline>  * { margin: 0; padding: 0; }\<newline>'' @
     ''  body { background: transparent; display: flex; align-items: center; justify-content: center; width: 1200px; height: 1200px; overflow: hidden; }\<newline>'' @
     ''  img { max-width: 100%; max-height: 100%; object-fit: contain; image-rendering: pixelated; }\<newline>'' @
     ''</style></head><body>\<newline>''"

definition imageHtml_tail :: string where
  "imageHtml_tail = ''\<newline></body></html>''"

definition imageHtml :: "string \<Rightarrow> string" where
  "imageHtml url = imageHtml_head @ ''<img src=\"'' @ url @ ''\" />'' @ imageHtml_tail"

definition renderImageWithChrome ::
  "world \<Rightarrow> string \<Rightarrow> string \<Rightarrow> int option \<Rightarrow> event list \<Rightarrow> (js_error + cached_preview option) \<times> event list" where
  "renderImageWithChrome W url mimetype stampNumber tr =
     (case renderWithCloudflare W
             \<lparr>req_url = None, req_html = Some (u16 (imageHtml url)), req_viewport = full_viewport,
              req_delay = Some 2000, req_timeout = None\<rparr> tr of
        (Some cfBuffer, tr1) \<Rightarrow>
          (case centerOnCanvas W (date_now W tr1) cfBuffer stampNumber mimetype ''cloudflare-browser'' of
             Inl e \<Rightarrow> (Inl e, tr1)
           | Inr result \<Rightarrow>
               (Inr (Some (result\<lparr>meta := (meta result)(''X-Rendering-Engine'' \<mapsto> ''cloudflare-worker'')\<rparr>)), tr1))
      | (None, tr1) \<Rightarrow> (Inr None, tr1))"

definition renderSvgWithChrome ::
  "world \<Rightarrow> string \<Rightarrow> string \<Rightarrow> int option \<Rightarrow> event list \<Rightarrow> (js_error + cached_preview option) \<times> event list" where
  "renderSvgWithChrome W url mimetype stampNumber tr =
     (case renderWithCloudflare W
             \<lparr>req_url = Some (u16 url), req_html = None, req_viewport = full_viewport,
              req_delay = None, req_timeout = None\<rparr> tr of
        (Some cfBuffer, tr1) \<Rightarrow>
          (case centerOnCanvas W (date_now W tr1) cfBuffer stampNumber mimetype ''cloudflare-browser'' of
             Inl e \<Rightarrow> (Inl e, tr1)
           | Inr result \<Rightarrow>
               (Inr (Some (result\<lparr>meta := (meta result)
                    (''X-Rendering-Engine'' \<mapsto> ''cloudflare-worker'', ''X-ForeignObject'' \<mapsto> ''true'')\<rparr>)), tr1))
      | (None, tr1) \<Rightarrow> (Inr None, tr1))"

text \<open>
  \<open>renderSvgPreview\<close>: after the fetch, content with \<^verbatim>\<open><foreignObject\<close> goes to the
  browser; anything else goes on to the vector rasterizer.
\<close>

definition renderSvgPreview ::
  "world \<Rightarrow> string \<Rightarrow> string \<Rightarrow> int option \<Rightarrow> event list \<Rightarrow> (js_error + cached_preview option) \<times> event list" where
  "renderSvgPreview W url mimetype stampNumber tr =
     (let tr1 = tr @ [FetchContent url] in
      case fetch_content W tr url of
        FetchThrew e \<Rightarrow> (Inl e, tr1)
      | Response st b \<Rightarrow>
          if \<not> response_ok st then (Inr None, tr1)
          else (case b of
                  Inl e \<Rightarrow> (Inl e, tr1)
                | Inr bytes \<Rightarrow>
                    (let svgContent = text_of bytes in
                     if js_includes svgContent (u16 ''<foreignObject'')
                     then renderSvgWithChrome W url mimetype stampNumber tr1
                     else (case rasterize_svg W svgContent mimetype stampNumber of
                             Inl e \<Rightarrow> (Inl e, tr1 @ [Rasterize svgContent])
                           | Inr result \<Rightarrow> (Inr (Some result), tr1 @ [Rasterize svgContent])))))"

subsection \<open>HTML (\<open>renderHtmlPreview\<close>)\<close>

definition hasIframe :: "js_text \<Rightarrow> bool" where
  "hasIframe rawHtml \<longleftrightarrow> js_includes rawHtml (u16 ''<iframe'')"

definition hasExternalRef :: "js_text \<Rightarrow> bool" where
  "hasExternalRef rawHtml \<longleftrightarrow>
     js_includes rawHtml (u16 ''ordinals.com/'') \<or> js_includes rawHtml (u16 ''arweave.net/'') \<or>
     js_includes rawHtml (u16 ''github.io/'')"

text \<open>\<^verbatim>\<open>/src\s*=\s*["']\//\<close>, \<^verbatim>\<open>/["']\/s\//\<close>, \<^verbatim>\<open>/["']A\d{10,}["']/\<close>.\<close>

definition hasRelativeScriptSrc :: "js_text \<Rightarrow> bool" where
  "hasRelativeScriptSrc rawHtml \<longleftrightarrow>
     rx_test [Lit (u16 ''src''), Many 0 rx_space, Lit (u16 ''=''), Many 0 rx_space, One rx_quote,
              Lit (u16 ''/'')] rawHtml"

definition hasStampContentRef :: "js_text \<Rightarrow> bool" where
  "hasStampContentRef rawHtml \<longleftrightarrow>
     rx_test [One rx_quote, Lit (u16 ''/s/'')] rawHtml \<or>
     rx_test [One rx_quote, Lit (u16 ''A''), Many 10 rx_digit, One rx_quote] rawHtml"

definition isRecursive :: "js_text \<Rightarrow> bool" where
  "isRecursive rawHtml \<longleftrightarrow>
     hasIframe rawHtml \<or> hasExternalRef rawHtml \<or> hasRelativeScriptSrc rawHtml \<or>
     hasStampContentRef rawHtml"

definition hasCanvas :: "js_text \<Rightarrow> bool" where
  "hasCanvas rawHtml \<longleftrightarrow> js_includes rawHtml (u16 ''<canvas'') \<or> js_includes rawHtml (u16 ''getContext'')"

definition hasAnimation :: "js_text \<Rightarrow> bool" where
  "hasAnimation rawHtml \<longleftrightarrow>
     js_includes rawHtml (u16 ''requestAnimationFrame'') \<or> js_includes rawHtml (u16 ''@keyframes'') \<or>
     js_includes rawHtml (u16 ''setInterval'')"

definition hasAsyncLoad :: "js_text \<Rightarrow> bool" where
  "hasAsyncLoad rawHtml \<longleftrightarrow>
     js_includes rawHtml (u16 ''async'') \<or> js_includes rawHtml (u16 ''await'') \<or> js_includes rawHtml (u16 ''.then('')"

definition isSimpleIframe :: "js_text \<Rightarrow> bool" where
  "isSimpleIframe rawHtml \<longleftrightarrow>
     hasIframe rawHtml \<and> \<not> hasCanvas rawHtml \<and> \<not> hasAnimation rawHtml \<and>
     \<not> hasAsyncLoad rawHtml \<and> length rawHtml < 500"

definition isComplex :: "js_text \<Rightarrow> string \<Rightarrow> bool" where
  "isComplex rawHtml url \<longleftrightarrow>
     (isRecursive rawHtml \<and> \<not> isSimpleIframe rawHtml) \<or>
     js_includes url ''recursive'' \<or> js_includes url ''fractal'' \<or> hasCanvas rawHtml"

definition html_delay :: "js_text \<Rightarrow> string \<Rightarrow> int" where
  "html_delay rawHtml url = (if isComplex rawHtml url then 8000 else 3000)"

definition contentUrl :: "string \<Rightarrow> string" where
  "contentUrl url =
     (let txHash = strip_html_suffix (split_pop ''/stamps/'' [] url) in
      if txHash \<noteq> [] then ''https://stampchain.io/content/'' @ txHash else url)"

text \<open>
  \<^verbatim>\<open>rawHtml.match(/src\s*=\s*["']([^"']+)["']/)\<close>: the quoted value of the leftmost match
  (the letters \<^verbatim>\<open>src\<close> may end a longer attribute name).
\<close>

definition iframeSrcMatch :: "js_text \<Rightarrow> js_text option" where
  "iframeSrcMatch rawHtml =
     (case rx_search [Lit (u16 ''src''), Many 0 rx_space, Lit (u16 ''=''), Many 0 rx_space,
                      One rx_quote, Many 1 rx_not_quote, One rx_quote] rawHtml of
        Some [_, _, iframeSrc] \<Rightarrow> Some iframeSrc
      | _ \<Rightarrow> None)"

definition renderUrl :: "js_text \<Rightarrow> string \<Rightarrow> js_text" where
  "renderUrl rawHtml url =
     (if isSimpleIframe rawHtml
      then (case iframeSrcMatch rawHtml of
              Some iframeSrc \<Rightarrow>
                if startsWith iframeSrc (u16 ''/'') then u16 ''https://stampchain.io'' @ iframeSrc
                else iframeSrc
            | None \<Rightarrow> u16 (contentUrl url))
      else u16 (contentUrl url))"

definition MIN_VALID_PNG_SIZE :: nat where
  "MIN_VALID_PNG_SIZE = 5000"

text \<open>The parameters of the first call, of the small-output retry, and the function.\<close>

definition html_first_request :: "world \<Rightarrow> js_text \<Rightarrow> string \<Rightarrow> cf_params" where
  "html_first_request W rawHtml url =
     (if isRecursive rawHtml
      then \<lparr>req_url = Some (renderUrl rawHtml url), req_html = None, req_viewport = full_viewport,
            req_delay = Some (html_delay rawHtml url), req_timeout = Some 45000\<rparr>
      else \<lparr>req_url = None, req_html = Some (cleanHtmlForRendering W rawHtml),
            req_viewport = full_viewport, req_delay = Some (html_delay rawHtml url),
            req_timeout = None\<rparr>)"

definition html_retry_request :: "string \<Rightarrow> cf_params" where
  "html_retry_request url =
     \<lparr>req_url = Some (u16 (contentUrl url)), req_html = None, req_viewport = full_viewport,
      req_delay = Some 8000, req_timeout = Some 45000\<rparr>"

definition renderHtmlPreview ::
  "world \<Rightarrow> string \<Rightarrow> string \<Rightarrow> int option \<Rightarrow> event list \<Rightarrow> (js_error + cached_preview option) \<times> event list" where
  "renderHtmlPreview W url mimetype stampNumber tr =
     (if \<not> cf_configured W then (Inr None, tr)
      else
        let tr1 = tr @ [FetchContent url] in
        case fetch_content W tr url of
          FetchThrew e \<Rightarrow> (Inr None, tr1)
        | Response st b \<Rightarrow>
            if \<not> response_ok st then (Inr None, tr1)
            else (case b of
                    Inl e \<Rightarrow> (Inr None, tr1)
                  | Inr bytes \<Rightarrow>
                      (let rawHtml = text_of bytes;
                           (cfBuffer, tr2) = renderWithCloudflare W (html_first_request W rawHtml url) tr1;
                           (cfBuffer', tr3) =
                             (case cfBuffer of
                                Some buf \<Rightarrow>
                                  if length buf < MIN_VALID_PNG_SIZE \<and> \<not> isRecursive rawHtml
                                  then renderWithCloudflare W (html_retry_request url) tr2
                                  else (cfBuffer, tr2)
                              | None \<Rightarrow> (cfBuffer, tr2))
                       in case cfBuffer' of
                            None \<Rightarrow> (Inr None, tr3)
                          | Some buf \<Rightarrow>
                              if length buf \<ge> MIN_VALID_PNG_SIZE
                              then (case centerOnCanvas W (date_now W tr3) buf stampNumber mimetype ''cloudflare-browser'' of
                                      Inl e \<Rightarrow> (Inr None, tr3)
                                    | Inr result \<Rightarrow>
                                        (Inr (Some (result\<lparr>meta := (meta result)
                                           (''X-Render-Time'' \<mapsto>
                                              (if isComplex rawHtml url then ''extended'' else ''standard''),
                                            ''X-Rendering-Engine'' \<mapsto> ''cloudflare-worker'',
                                            ''X-Recursive'' \<mapsto>
                                              (if isRecursive rawHtml then ''true'' else ''false''))\<rparr>)), tr3))
                              else (Inr None, tr3))))"

subsection \<open>Video (\<open>renderVideoPreview\<close>)\<close>

definition videoHtml :: "string \<Rightarrow> string" where
  "videoHtml url =
     ''<!DOCTYPE html>\<newline><html><head><style>\<newline>  * { margin: 0; padding: 0; }\<newline>'' @
     ''  body { background: #14001f; display: flex; align-items: center; justify-content: center; width: 1200px; height: 1200px; overflow: hidden; }\<newline>'' @
     ''  video { max-width: 100%; max-height: 100%; object-fit: contain; }\<newline>'' @
     ''</style></head><body>\<newline><video src=\"'' @ url @ ''\" muted preload=\"auto\" autoplay></video>\<newline>'' @
     ''<script>\<newline>  const v = document.querySelector('' @ [CHR 0x27] @ ''video'' @ [CHR 0x27] @ '');\<newline>'' @
     ''  v.addEventListener('' @ [CHR 0x27] @ ''loadeddata'' @ [CHR 0x27] @
     '', () => { v.pause(); v.currentTime = 0; });\<newline></script></body></html>''"

definition renderVideoPreview ::
  "world \<Rightarrow> string \<Rightarrow> string \<Rightarrow> int option \<Rightarrow> event list \<Rightarrow> (js_error + cached_preview option) \<times> event list" where
  "renderVideoPreview W url mimetype stampNumber tr =
     (case renderWithCloudflare W
             \<lparr>req_url = None, req_html = Some (u16 (videoHtml url)), req_viewport = full_viewport,
              req_delay = Some 3000, req_timeout = None\<rparr> tr of
        (Some cfBuffer, tr1) \<Rightarrow>
          (case centerOnCanvas W (date_now W tr1) cfBuffer stampNumber mimetype ''cloudflare-browser-video'' of
             Inl e \<Rightarrow> (Inl e, tr1)
           | Inr result \<Rightarrow> (Inr (Some result), tr1))
      | (None, tr1) \<Rightarrow> (Inr None, tr1))"

subsection \<open>Audio waveform (\<open>renderAudioPreview\<close>)\<close>

text \<open>
  The seed: \<^verbatim>\<open>seed = ((seed << 5) - seed + stamp_url.charCodeAt(i)) | 0\<close>, a signed 32-bit
  integer.
\<close>

definition audio_seed :: "string \<Rightarrow> 32 word" where
  "audio_seed url = foldl (\<lambda>seed c. push_bit 5 seed - seed + of_nat (of_char c)) 0 url"

text \<open>
  The generator computes \<^verbatim>\<open>seed * 1103515245 + 12345\<close> in double precision, where the
  product exceeds 53 bits: \<open>round_double\<close> rounds an integer to the nearest double (ties to
  even). \<^verbatim>\<open>& 0x7fffffff\<close> keeps the low 31 bits.
\<close>

function bit_length :: "int \<Rightarrow> nat" where
  "bit_length n = (if n \<le> 0 then 0 else Suc (bit_length (n div 2)))"
  by pat_completeness auto
termination
  by (relation "measure nat") auto

declare bit_length.simps [simp del]

definition round_double :: "int \<Rightarrow> int" where
  "round_double k =
     (let a = \<bar>k\<bar>; e = bit_length a - 53 in
      if e = 0 then k
      else let q = a div 2 ^ e; r = a mod 2 ^ e; h = 2 ^ (e - 1);
               q' = (if r > h \<or> (r = h \<and> odd q) then q + 1 else q)
           in sgn k * (q' * 2 ^ e))"

definition rng_next :: "int \<Rightarrow> int" where
  "rng_next seed = round_double (round_double (seed * 1103515245) + 12345) mod 2 ^ 31"

definition barCount :: int where "barCount = 64"
definition barWidth :: int where "barWidth = 13"
definition gap :: int where "gap = 2"
definition startX :: int where "startX = (targetSize - barCount * (barWidth + gap)) div 2"
definition centerY :: int where "centerY = 600"
definition colors :: "pixel list" where "colors = [0xf59e0bff, 0xf97316ff, 0xef4444ff, 0xec4899ff]"

text \<open>One bar: two draws from the generator, then the symmetric column of pixels.\<close>

definition audio_bar :: "world \<Rightarrow> int \<Rightarrow> int \<times> image \<Rightarrow> js_error + (int \<times> image)" where
  "audio_bar W i = (\<lambda>(seed, outputImage).
     let seed1 = rng_next seed;
         barHeight = bar_height W i (seed1 mod 700);
         x = startX + i * (barWidth + gap);
         seed2 = rng_next seed1;
         color = colors ! nat (seed2 mod 4)
     in case for_loop (- barHeight) (barHeight + 1) (\<lambda>dy img.
               let py = centerY + dy in
               if py < 1 \<or> py > targetSize then Inr img
               else for_loop 0 barWidth (\<lambda>dx img'.
                      let px = x + dx in
                      if px < 1 \<or> px > targetSize then Inr img'
                      else setPixelAt img' px py color) img) outputImage of
          Inl e \<Rightarrow> Inl e
        | Inr img \<Rightarrow> Inr (seed2, img))"

definition audio_circle :: "image \<Rightarrow> js_error + image" where
  "audio_circle =
     for_loop (- 60) 61 (\<lambda>dy img.
       for_loop (- 60) 61 (\<lambda>dx img'.
         if dx * dx + dy * dy \<le> 60 * 60
         then (let px = targetSize div 2 + dx; py = 600 + dy in
               if px \<ge> 1 \<and> px \<le> targetSize \<and> py \<ge> 1 \<and> py \<le> targetSize
               then setPixelAt img' px py 0x14001fcc else Inr img')
         else Inr img') img)"

definition audio_triangle :: "world \<Rightarrow> image \<Rightarrow> js_error + image" where
  "audio_triangle W =
     for_loop (- 30) 31 (\<lambda>row img.
       for_loop (- 5) (tri_half_width W row) (\<lambda>col img'.
         let px = targetSize div 2 + col + 8; py = 600 + row in
         if px \<ge> 1 \<and> px \<le> targetSize \<and> py \<ge> 1 \<and> py \<le> targetSize
         then setPixelAt img' px py 0xffffffff else Inr img') img)"

definition audio_image :: "world \<Rightarrow> 32 word \<Rightarrow> js_error + image" where
  "audio_image W seed0 =
     (case for_loop 0 barCount (audio_bar W)
             (sint seed0, fill 0x14001fff (new_Image targetSize targetSize)) of
        Inl e \<Rightarrow> Inl e
      | Inr (seed, img) \<Rightarrow>
     (case audio_circle img of
        Inl e \<Rightarrow> Inl e
      | Inr img' \<Rightarrow> audio_triangle W img'))"

definition renderAudioPreview ::
  "world \<Rightarrow> string \<Rightarrow> string \<Rightarrow> int option \<Rightarrow> event list \<Rightarrow> js_error + cached_preview" where
  "renderAudioPreview W url mimetype stampNumber tr =
     (case audio_image W (audio_seed url) of
        Inl e \<Rightarrow> Inl e
      | Inr outputImage \<Rightarrow>
     (case encode_png W (date_now W tr) outputImage of
        Inl e \<Rightarrow> Inl e
      | Inr pngBuffer \<Rightarrow>
     (case toBase64 pngBuffer of
        Inl e \<Rightarrow> Inl e
      | Inr b64 \<Rightarrow>
          Inr \<lparr>png = b64,
               meta = [''X-Stamp-Number'' \<mapsto> stamp_number_header stampNumber,
                       ''X-Original-Type'' \<mapsto> mimetype,
                       ''X-Conversion-Method'' \<mapsto> ''imagescript-waveform'',
                       ''X-Dimensions'' \<mapsto> ''1200x1200'']\<rparr>)))"

subsection \<open>The orchestrator (\<open>renderPreview\<close>)\<close>

definition renderPreview ::
  "world \<Rightarrow> string \<Rightarrow> event list \<Rightarrow> (js_error + cached_preview option) \<times> event list" where
  "renderPreview W stampIdentifier tr =
     (let tr1 = tr @ [Resolve stampIdentifier] in
      case getSpecificStamp W tr stampIdentifier of
        Inl e \<Rightarrow> (Inl e, tr1)
      | Inr None \<Rightarrow> (Inr None, tr1)
      | Inr (Some stampData) \<Rightarrow>
     (case stamp_url stampData of
        None \<Rightarrow> (Inr None, tr1)
      | Some url \<Rightarrow>
          if url = [] then (Inr None, tr1)
          else
     (case stamp_mimetype stampData of
        None \<Rightarrow> (Inr None, tr1)
      | Some mimetype \<Rightarrow>
          if startsWith mimetype ''image/'' \<and> mimetype \<noteq> ''image/svg+xml''
          then (case renderRasterPreview W url mimetype (stamp_no stampData) tr1 of
                  (Inl e, tr2) \<Rightarrow> (Inl e, tr2)
                | (Inr (Some result), tr2) \<Rightarrow> (Inr (Some result), tr2)
                | (Inr None, tr2) \<Rightarrow> renderImageWithChrome W url mimetype (stamp_no stampData) tr2)
          else if mimetype = ''image/svg+xml''
          then renderSvgPreview W url mimetype (stamp_no stampData) tr1
          else if mimetype = ''text/html''
          then renderHtmlPreview W url mimetype (stamp_no stampData) tr1
          else if startsWith mimetype ''audio/''
          then (case renderAudioPreview W url mimetype (stamp_no stampData) tr1 of
                  Inl e \<Rightarrow> (Inl e, tr1)
                | Inr result \<Rightarrow> (Inr (Some result), tr1))
          else if startsWith mimetype ''video/''
          then renderVideoPreview W url mimetype (stamp_no stampData) tr1
          else (Inr None, tr1))))"

subsection \<open>The cache layer (\<open>handleRedisPreview\<close>)\<close>

text \<open>
  What the cache holds under a key: a rendered preview, or the sentinel of a failed render
  with its timestamp (milliseconds, \<^verbatim>\<open>Date.now()\<close>).
\<close>

datatype cache_value = Preview cached_preview | FailedRender int

text \<open>
  The state of a request: the store (each entry with the time at which it expires), the
  clock, and the log of what was done. \<open>render\<close> stands for \<open>renderPreview\<close> with the
  world it runs in: given the identifier and the time, its outcome and the time it takes.
\<close>

datatype action = Rendered string | CacheSet string cache_value | Invalidated string

record store =
  cache :: "string \<rightharpoonup> cache_value \<times> int"
  clock :: int
  log :: "action list"

record renderer =
  render :: "string \<Rightarrow> int \<Rightarrow> (js_error + cached_preview option) \<times> int"
  pattern_matches :: "string \<Rightarrow> string \<Rightarrow> bool"

definition do_render :: "renderer \<Rightarrow> string \<Rightarrow> store \<Rightarrow> (js_error + cached_preview option) \<times> store" where
  "do_render R ident st =
     (let (r, duration) = render R ident (clock st)
      in (r, st\<lparr>clock := clock st + duration, log := log st @ [Rendered ident]\<rparr>))"

text \<open>
  Modelled from the spec: \<open>dbManager.handleCache\<close> and \<open>dbManager.invalidateCacheByPattern\<close>
  are not among the sources. The spec gives the store the operations
  \<^verbatim>\<open>get(key) -> value | miss\<close>, \<^verbatim>\<open>set(key, value, ttlSeconds)\<close> and
  \<^verbatim>\<open>invalidate(keyPattern)\<close>, and has the cache layer check the store, compute on a miss
  and persist the result. Which keys a pattern matches is left to \<open>pattern_matches\<close>.
\<close>

definition cache_get :: "store \<Rightarrow> string \<Rightarrow> cache_value option" where
  "cache_get st key =
     (case cache st key of
        None \<Rightarrow> None
      | Some (v, expires) \<Rightarrow> if clock st < expires then Some v else None)"

definition cache_set :: "string \<Rightarrow> cache_value \<Rightarrow> int \<Rightarrow> store \<Rightarrow> store" where
  "cache_set key v ttlSeconds st =
     st\<lparr>cache := (cache st)(key \<mapsto> (v, clock st + ttlSeconds * 1000)),
        log := log st @ [CacheSet key v]\<rparr>"

definition invalidateCacheByPattern :: "renderer \<Rightarrow> string \<Rightarrow> store \<Rightarrow> store" where
  "invalidateCacheByPattern R pattern st =
     st\<lparr>cache := (\<lambda>key. if pattern_matches R pattern key then None else cache st key),
        log := log st @ [Invalidated pattern]\<rparr>"

definition handleCache ::
  "string \<Rightarrow> (store \<Rightarrow> (js_error + cache_value) \<times> store) \<Rightarrow> int \<Rightarrow> store \<Rightarrow> (js_error + cache_value) \<times> store" where
  "handleCache key fetchFn ttlSeconds st =
     (case cache_get st key of
        Some v \<Rightarrow> (Inr v, st)
      | None \<Rightarrow>
          (case fetchFn st of
             (Inl e, st') \<Rightarrow> (Inl e, st')
           | (Inr v, st') \<Rightarrow> (Inr v, cache_set key v ttlSeconds st')))"

text \<open>The responses of the route and its constants.\<close>

datatype response =
    Redirect string "string \<rightharpoonup> string"
  | Binary "byte list" "string \<rightharpoonup> string"

definition FALLBACK_LOGO :: string where
  "FALLBACK_LOGO = ''https://stampchain.io/img/logo/stampchain-logo-opengraph.jpg''"

definition FAILED_RENDER_TTL :: int where
  "FAILED_RENDER_TTL = 3600"

definition CACHE_success :: "string \<rightharpoonup> string" where
  "CACHE_success = [''Cache-Control'' \<mapsto> ''public, max-age=31536000, immutable'']"

definition CACHE_redirect :: "string \<rightharpoonup> string" where
  "CACHE_redirect = [''Cache-Control'' \<mapsto> ''public, max-age=86400'']"

text \<open>
  The fetch function handed to \<open>handleCache\<close> on the first read: render, and turn a
  \<open>null\<close> into a sentinel stamped with the time after the render.
\<close>

definition render_or_sentinel :: "renderer \<Rightarrow> string \<Rightarrow> store \<Rightarrow> (js_error + cache_value) \<times> store" where
  "render_or_sentinel R ident st =
     (case do_render R ident st of
        (Inl e, st') \<Rightarrow> (Inl e, st')
      | (Inr (Some result), st') \<Rightarrow> (Inr (Preview result), st')
      | (Inr None, st') \<Rightarrow> (Inr (FailedRender (clock st')), st'))"

text \<open>The branch taken when the sentinel read from the cache has expired.\<close>

definition retry_after_failure :: "renderer \<Rightarrow> string \<Rightarrow> string \<Rightarrow> store \<Rightarrow> (js_error + response) \<times> store" where
  "retry_after_failure R ident cacheKey st =
     (let new_sentinel = (\<lambda>st4.
            case handleCache cacheKey (\<lambda>s. (Inr (FailedRender (clock s)), s)) 604800 st4 of
              (Inl e, st5) \<Rightarrow> (Inl e, st5)
            | (Inr _, st5) \<Rightarrow>
                (Inr (Redirect FALLBACK_LOGO
                   ([''X-Fallback'' \<mapsto> ''render-failed-retry''] ++ CACHE_redirect)), st5))
      in case do_render R ident (invalidateCacheByPattern R cacheKey st) of
           (Inl e, st4) \<Rightarrow> (Inl e, st4)
         | (Inr None, st4) \<Rightarrow> new_sentinel st4
         | (Inr (Some freshResult), st4) \<Rightarrow>
             if png freshResult \<noteq> []
             then (case handleCache cacheKey (\<lambda>s. (Inr (Preview freshResult), s)) 604800 st4 of
                     (Inl e, st5) \<Rightarrow> (Inl e, st5)
                   | (Inr _, st5) \<Rightarrow>
                       (case fromBase64 (png freshResult) of
                          Inl e \<Rightarrow> (Inl e, st5)
                        | Inr pngBytes \<Rightarrow>
                            (Inr (Binary pngBytes
                               (meta freshResult ++ [''X-Cache'' \<mapsto> ''retry-after-failure''] ++
                                CACHE_success)), st5)))
             else new_sentinel st4)"

definition handleRedisPreview :: "renderer \<Rightarrow> string \<Rightarrow> bool \<Rightarrow> store \<Rightarrow> (js_error + response) \<times> store" where
  "handleRedisPreview R ident forceRefresh st =
     (let cacheKey = ''preview:'' @ ident;
          st1 = (if forceRefresh then invalidateCacheByPattern R cacheKey st else st);
          wasRendered = (cache_get st1 cacheKey = None)
      in case handleCache cacheKey (render_or_sentinel R ident) 604800 st1 of
           (Inl e, st2) \<Rightarrow> (Inl e, st2)
         | (Inr (FailedRender timestamp), st2) \<Rightarrow>
             (let age = clock st2 - timestamp in
              if age < FAILED_RENDER_TTL * 1000
              then (Inr (Redirect FALLBACK_LOGO
                      ([''X-Fallback'' \<mapsto> ''cached-render-failure'',
                        ''X-Failure-Age'' \<mapsto> toString ((age + 500) div 1000) @ ''s''] ++
                       CACHE_redirect)), st2)
              else retry_after_failure R ident cacheKey st2)
         | (Inr (Preview cached), st2) \<Rightarrow>
             if png cached \<noteq> []
             then (case fromBase64 (png cached) of
                     Inl e \<Rightarrow> (Inl e, st2)
                   | Inr pngBytes \<Rightarrow>
                       (Inr (Binary pngBytes
                          (meta cached ++
                           [''X-Cache'' \<mapsto> (if wasRendered then ''rendered'' else ''redis-hit'')] ++
                           CACHE_success)), st2))
             else (Inr (Redirect FALLBACK_LOGO
                     ([''X-Fallback'' \<mapsto> ''render-failed-or-unsupported''] ++ CACHE_redirect)), st2))"

subsection \<open>Auxiliary notions for the proofs, and sample inputs\<close>

text \<open>\<open>paint R v img\<close> overwrites the pixels in the region \<open>R\<close> with the values \<open>v\<close>.\<close>

definition paint :: "(int \<times> int \<Rightarrow> bool) \<Rightarrow> (int \<times> int \<Rightarrow> pixel) \<Rightarrow> image \<Rightarrow> image" where
  "paint R v img = img\<lparr>bitmap := (\<lambda>p. if R p then v p else bitmap img p)\<rparr>"

text \<open>A 2x1 source (one red, one green pixel) and uniformly white sources.\<close>

definition two_pixels :: image where
  "two_pixels = \<lparr>width = 2, height = 1,
     bitmap = (\<lambda>p. if p = (1, 1) then 0xFF0000FF else if p = (2, 1) then 0x00FF00FF else 0)\<rparr>"


text \<open>An image of the size of the canvas.\<close>

definition canvas_sized :: "image \<Rightarrow> bool" where
  "canvas_sized img \<longleftrightarrow> width img = 1200 \<and> height img = 1200"

text \<open>The sextets of the encoding, without the alphabet and without the padding.\<close>

fun b64_sextets :: "nat list \<Rightarrow> nat list" where
  "b64_sextets [] = []"
| "b64_sextets [a] = [a div 4, (a mod 4) * 16]"
| "b64_sextets [a, b] = [a div 4, (a mod 4) * 16 + b div 16, (b mod 16) * 4]"
| "b64_sextets (a # b # c # rest) =
     [a div 4, (a mod 4) * 16 + b div 16, (b mod 16) * 4 + c div 64, c mod 64] @ b64_sextets rest"

definition b64_pad :: "nat list \<Rightarrow> nat" where
  "b64_pad xs = (3 - length xs mod 3) mod 3"


text \<open>
  The outcomes of one request to the rendering worker that the retry policy is about: a
  client error or an abort, and a server error or a transport error that the client
  recognises.
\<close>

definition never_retried :: "http_result \<Rightarrow> bool" where
  "never_retried outcome \<longleftrightarrow>
     (case outcome of
        Response st b \<Rightarrow> 400 \<le> st \<and> st \<le> 499
      | FetchThrew error \<Rightarrow> isAbort error)"

definition retried :: "http_result \<Rightarrow> bool" where
  "retried outcome \<longleftrightarrow>
     (case outcome of
        Response st b \<Rightarrow> 500 \<le> st
      | FetchThrew error \<Rightarrow> isRetryable error)"

text \<open>
  A world whose rendering worker answers by \<open>f\<close>. Its clock advances by 4 with every event;
  its encoder writes one byte for the creation time and one for the pixel in the middle of
  the canvas; its other parts do nothing of interest.
\<close>

definition sample_world :: "(event list \<Rightarrow> cf_params \<Rightarrow> http_result) \<Rightarrow> world" where
  "sample_world f =
     \<lparr>cf_configured = True,
      cf_worker = f,
      fetch_content = (\<lambda>_ _. Response 404 (Inr [])),
      getSpecificStamp = (\<lambda>_ _. Inr None),
      decode_image = (\<lambda>_. Inl (JsError ''Error'' ''Unknown file signature'')),
      decode_gif = (\<lambda>_. Inl (JsError ''Error'' ''Unknown file signature'')),
      date_now = (\<lambda>tr. 4 * int (length tr)),
      encode_png = (\<lambda>now img. Inr [of_int now, ucast (bitmap img (600, 600))]),
      center_resized = Inr,
      rasterize_svg = (\<lambda>_ _ _. Inl (JsError ''Error'' ''not rendered'')),
      cleanHtmlForRendering = id,
      bar_height = (\<lambda>_ _. 0),
      tri_half_width = (\<lambda>_. 0)\<rparr>"

definition url_request :: "string \<Rightarrow> cf_params" where
  "url_request u =
     \<lparr>req_url = Some (u16 u), req_html = None, req_viewport = Some (1200, 1200),
      req_delay = None, req_timeout = None\<rparr>"

text \<open>The events that a call of the rendering-worker client adds to the trace.\<close>

definition is_browser_event :: "event \<Rightarrow> bool" where
  "is_browser_event e \<longleftrightarrow> (case e of Attempt p t \<Rightarrow> True | Sleep d \<Rightarrow> True | _ \<Rightarrow> False)"

definition is_rasterize :: "event \<Rightarrow> bool" where
  "is_rasterize e \<longleftrightarrow> (case e of Rasterize s \<Rightarrow> True | _ \<Rightarrow> False)"

text \<open>
  The bytes of an ASCII text (its UTF-8 encoding), and a world that serves one document for
  every URL.
\<close>

definition is_ascii :: "string \<Rightarrow> bool" where
  "is_ascii s \<longleftrightarrow> (\<forall>c\<in>set s. (of_char c :: nat) < 128)"

definition bytes_of :: "string \<Rightarrow> byte list" where
  "bytes_of s = map (\<lambda>c. of_nat (of_char c)) s"

definition serving :: "string \<Rightarrow> world" where
  "serving doc = (sample_world (\<lambda>_ _. Response 404 (Inr [])))
     \<lparr>fetch_content := (\<lambda>_ _. Response 200 (Inr (bytes_of doc)))\<rparr>"

text \<open>A world that serves one document and resolves every identifier to the given stamp.\<close>

definition stamp_world :: "string \<Rightarrow> string \<Rightarrow> string \<Rightarrow> world" where
  "stamp_world doc url mimetype = (serving doc)
     \<lparr>getSpecificStamp := (\<lambda>_ _. Inr (Some \<lparr>stamp_url = Some url, stamp_mimetype = Some mimetype,
                                                 stamp_no = Some 1\<rparr>))\<rparr>"

text \<open>A world that resolves every identifier to one audio stamp.\<close>

definition audio_world :: world where
  "audio_world = stamp_world [] ''https://stampchain.io/stamps/a.mp3'' ''audio/mpeg''"

text \<open>Sample HTML documents and sample content URLs.\<close>

definition canvas_doc :: string where
  "canvas_doc = ''<canvas></canvas>''"

definition plain_doc :: string where
  "plain_doc = ''<p>hi</p>''"

definition iframe_doc :: string where
  "iframe_doc = ''<iframe src=\"/s/abc\">''"

definition unquoted_iframe_doc :: string where
  "unquoted_iframe_doc = ''<iframe src=/s/abc></iframe>''"

definition data_src_doc :: string where
  "data_src_doc = ''<iframe data-src=\"/x\" src=\"/s/abc\">''"

definition sample_url :: string where
  "sample_url = ''https://stampchain.io/stamps/ab.html''"

definition fractal_url :: string where
  "fractal_url = ''https://stampchain.io/stamps/fractal.html''"

text \<open>
  \<open>renderPreview\<close> in a given world as the renderer of the cache layer, each call taking the
  given time; a store that holds a failure sentinel written at time 0 for the stamp \<open>a\<close>,
  read at the given time; and a world in which the stamp \<open>a\<close> is a PNG image and every
  fetch of content throws a network error.
\<close>

definition world_renderer :: "world \<Rightarrow> int \<Rightarrow> renderer" where
  "world_renderer W duration =
     \<lparr>render = (\<lambda>ident now. (fst (renderPreview W ident []), duration)), pattern_matches = (=)\<rparr>"

definition marked_store :: "int \<Rightarrow> store" where
  "marked_store now =
     \<lparr>cache = [''preview:a'' \<mapsto> (FailedRender 0, 604800000)], clock = now, log = []\<rparr>"

definition unreachable_world :: world where
  "unreachable_world = (stamp_world [] ''https://stampchain.io/stamps/ab.png'' ''image/png'')
     \<lparr>fetch_content := (\<lambda>_ _. FetchThrew (JsError ''TypeError'' ''fetch failed''))\<rparr>"

section \<open>Verification\<close>

subsection \<open>Loop invariants and the integer upscale\<close>

lemma for_loop_done: "hi \<le> i \<Longrightarrow> for_loop i hi body s = Inr s"
  by (simp add: for_loop.simps)

lemma for_loop_inv:
  assumes "P i s" "i \<le> hi"
    and "\<And>j t. i \<le> j \<Longrightarrow> j < hi \<Longrightarrow> P j t \<Longrightarrow> \<exists>t'. body j t = Inr t' \<and> P (j + 1) t'"
  shows "\<exists>t. for_loop i hi body s = Inr t \<and> P hi t"
  using assms
proof (induction i hi body s rule: for_loop.induct)
  case (1 i hi body s)
  show ?case
  proof (cases "i < hi")
    case True
    from "1.prems"(3) [of i s] True "1.prems"(1)
    obtain s' where s': "body i s = Inr s'" "P (i + 1) s'" by auto
    have "\<exists>t. for_loop (i + 1) hi body s' = Inr t \<and> P hi t"
    proof (rule "1.IH" [OF True s'(1) s'(2)])
      show "i + 1 \<le> hi" using True by simp
    next
      fix j t assume "i + 1 \<le> j" "j < hi" "P j t"
      then show "\<exists>t'. body j t = Inr t' \<and> P (j + 1) t'"
        using "1.prems"(3) [of j t] by simp
    qed
    then show ?thesis
      using True s' by (subst for_loop.simps) simp
  next
    case False
    with "1.prems" have "i = hi" by simp
    then show ?thesis using "1.prems"(1) by (simp add: for_loop.simps)
  qed
qed

lemma paint_dims [simp]: "width (paint R v img) = width img" "height (paint R v img) = height img"
  by (simp_all add: paint_def)

lemma paint_none: "(\<And>p. \<not> R p) \<Longrightarrow> paint R v img = img"
  by (simp add: paint_def)

lemma paint_paint:
  "paint R2 v2 (paint R1 v1 img) = paint (\<lambda>p. R1 p \<or> R2 p) (\<lambda>p. if R2 p then v2 p else v1 p) img"
  by (auto simp: paint_def fun_eq_iff)

lemma paint_cong:
  "(\<And>p. R p = R' p) \<Longrightarrow> (\<And>p. R p \<Longrightarrow> v p = v' p) \<Longrightarrow> paint R v img = paint R' v' img"
  by (auto simp: paint_def fun_eq_iff)

lemma setPixelAt_paint:
  "in_bounds img x y \<Longrightarrow> setPixelAt img x y c = Inr (paint (\<lambda>p. p = (x, y)) (\<lambda>_. c) img)"
  by (auto simp: setPixelAt_def paint_def fun_eq_iff)

lemma dx_loop:
  assumes dims: "width out = 1200" "height out = 1200"
    and py: "1 \<le> py" "py \<le> 1200"
    and b: "0 \<le> offsetX + x * s" "offsetX + x * s + s \<le> 1200" and s: "0 \<le> s"
  shows "upscale_dx_loop offsetX x s py pixel out =
    Inr (paint (\<lambda>(p, q). q = py \<and> offsetX + x * s < p \<and> p \<le> offsetX + x * s + s) (\<lambda>_. pixel) out)"
proof -
  define b where "b = offsetX + x * s"
  define P where "P j t \<longleftrightarrow> t = paint (\<lambda>(p, q). q = py \<and> b < p \<and> p \<le> b + j) (\<lambda>_. pixel) out" for j t
  let ?body = "\<lambda>dx outputImage. let px = offsetX + x * s + dx + 1 in
       if px < 1 \<or> px > targetSize then Inr outputImage else setPixelAt outputImage px py pixel"
  have "\<exists>t. for_loop 0 s ?body out = Inr t \<and> P s t"
  proof (rule for_loop_inv)
    show "P 0 out" unfolding P_def by (rule paint_none [symmetric]) auto
    show "0 \<le> s" by fact
  next
    fix j t assume j: "0 \<le> j" "j < s" and "P j t"
    then have t: "t = paint (\<lambda>(p, q). q = py \<and> b < p \<and> p \<le> b + j) (\<lambda>_. pixel) out"
      by (simp add: P_def)
    have inb: "in_bounds t (b + j + 1) py"
      using j b py dims by (simp add: t in_bounds_def b_def)
    have "?body j t = setPixelAt t (b + j + 1) py pixel"
      using j b by (simp add: Let_def targetSize_def b_def)
    also have "\<dots> = Inr (paint (\<lambda>p. p = (b + j + 1, py)) (\<lambda>_. pixel) t)"
      by (rule setPixelAt_paint [OF inb])
    also have "paint (\<lambda>p. p = (b + j + 1, py)) (\<lambda>_. pixel) t
        = paint (\<lambda>(p, q). q = py \<and> b < p \<and> p \<le> b + (j + 1)) (\<lambda>_. pixel) out"
      unfolding t paint_paint by (rule paint_cong) (use j in auto)
    finally show "\<exists>t'. ?body j t = Inr t' \<and> P (j + 1) t'"
      by (simp add: P_def)
  qed
  then show ?thesis
    by (auto simp: upscale_dx_loop_def P_def b_def)
qed

lemma dy_loop:
  assumes dims: "width out = 1200" "height out = 1200"
    and c: "0 \<le> offsetY + y * s" "offsetY + y * s + s \<le> 1200"
    and b: "0 \<le> offsetX + x * s" "offsetX + x * s + s \<le> 1200" and s: "0 \<le> s"
  shows "upscale_dy_loop offsetX offsetY x y s pixel out =
    Inr (paint (\<lambda>(p, q). offsetY + y * s < q \<and> q \<le> offsetY + y * s + s
                       \<and> offsetX + x * s < p \<and> p \<le> offsetX + x * s + s) (\<lambda>_. pixel) out)"
proof -
  define b where "b = offsetX + x * s"
  define c where "c = offsetY + y * s"
  define P where "P j t \<longleftrightarrow> t = paint (\<lambda>(p, q). c < q \<and> q \<le> c + j \<and> b < p \<and> p \<le> b + s) (\<lambda>_. pixel) out" for j t
  let ?body = "\<lambda>dy outputImage. let py = offsetY + y * s + dy + 1 in
       if py < 1 \<or> py > targetSize then Inr outputImage
       else upscale_dx_loop offsetX x s py pixel outputImage"
  have "\<exists>t. for_loop 0 s ?body out = Inr t \<and> P s t"
  proof (rule for_loop_inv)
    show "P 0 out" unfolding P_def by (rule paint_none [symmetric]) auto
    show "0 \<le> s" by fact
  next
    fix j t assume j: "0 \<le> j" "j < s" and "P j t"
    then have t: "t = paint (\<lambda>(p, q). c < q \<and> q \<le> c + j \<and> b < p \<and> p \<le> b + s) (\<lambda>_. pixel) out"
      by (simp add: P_def)
    have "?body j t = upscale_dx_loop offsetX x s (c + j + 1) pixel t"
      using j assms(3,4) by (simp add: Let_def targetSize_def c_def)
    also have "\<dots> = Inr (paint (\<lambda>(p, q). q = c + j + 1 \<and> offsetX + x * s < p \<and> p \<le> offsetX + x * s + s) (\<lambda>_. pixel) t)"
      by (rule dx_loop) (use j assms in \<open>simp_all add: t c_def\<close>)
    also have "paint (\<lambda>(p, q). q = c + j + 1 \<and> offsetX + x * s < p \<and> p \<le> offsetX + x * s + s) (\<lambda>_. pixel) t
        = paint (\<lambda>(p, q). c < q \<and> q \<le> c + (j + 1) \<and> b < p \<and> p \<le> b + s) (\<lambda>_. pixel) out"
      unfolding t paint_paint b_def [symmetric] by (rule paint_cong) (use j in auto)
    finally show "\<exists>t'. ?body j t = Inr t' \<and> P (j + 1) t'"
      by (simp add: P_def)
  qed
  then show ?thesis
    by (auto simp: upscale_dy_loop_def P_def b_def c_def)
qed

lemma div_block:
  fixes j s r :: int
  assumes "j * s < r" "r \<le> j * s + s"
  shows "(r - 1) div s = j"
proof (rule int_div_pos_eq)
  show "r - 1 = s * j + (r - 1 - j * s)" by (simp add: mult.commute)
  show "0 \<le> r - 1 - j * s" using assms by simp
  show "r - 1 - j * s < s" using assms by simp
qed

lemma x_loop:
  assumes dims: "width out = 1200" "height out = 1200"
    and y: "0 \<le> y" "y < height src"
    and c: "0 \<le> offsetY + y * s" "offsetY + y * s + s \<le> 1200"
    and ox: "0 \<le> offsetX" "offsetX + width src * s \<le> 1200" and s: "0 \<le> s"
    and w: "0 \<le> width src"
  shows "upscale_x_loop src offsetX offsetY y s out =
    Inr (paint (\<lambda>(p, q). offsetY + y * s < q \<and> q \<le> offsetY + y * s + s
                       \<and> offsetX < p \<and> p \<le> offsetX + width src * s)
               (\<lambda>(p, q). bitmap src ((p - 1 - offsetX) div s + 1, y + 1)) out)"
proof -
  define c where "c = offsetY + y * s"
  define v where "v = (\<lambda>(p :: int, q :: int). bitmap src ((p - 1 - offsetX) div s + 1, y + 1))"
  define P where "P j t \<longleftrightarrow>
    t = paint (\<lambda>(p, q). c < q \<and> q \<le> c + s \<and> offsetX < p \<and> p \<le> offsetX + j * s) v out" for j t
  let ?body = "\<lambda>x outputImage. case getPixelAt src (x + 1) (y + 1) of
         Inl e \<Rightarrow> Inl e
       | Inr pixel \<Rightarrow> upscale_dy_loop offsetX offsetY x y s pixel outputImage"
  have "\<exists>t. for_loop 0 (width src) ?body out = Inr t \<and> P (width src) t"
  proof (rule for_loop_inv)
    show "P 0 out" unfolding P_def by (rule paint_none [symmetric]) auto
    show "0 \<le> width src" by fact
  next
    fix j t assume j: "0 \<le> j" "j < width src" and "P j t"
    then have t: "t = paint (\<lambda>(p, q). c < q \<and> q \<le> c + s \<and> offsetX < p \<and> p \<le> offsetX + j * s) v out"
      by (simp add: P_def)
    define m where "m = j * s"
    have m0: "0 \<le> m" using j s by (simp add: m_def)
    have "(j + 1) * s \<le> width src * s"
      using j s by (intro mult_right_mono) simp_all
    then have m1: "offsetX + m + s \<le> 1200"
      using ox by (simp add: m_def algebra_simps)
    have "getPixelAt src (j + 1) (y + 1) = Inr (bitmap src (j + 1, y + 1))"
      using j y by (simp add: getPixelAt_def in_bounds_def)
    then have "?body j t = upscale_dy_loop offsetX offsetY j y s (bitmap src (j + 1, y + 1)) t"
      by simp
    also have "\<dots> = Inr (paint (\<lambda>(p, q). offsetY + y * s < q \<and> q \<le> offsetY + y * s + s
                       \<and> offsetX + j * s < p \<and> p \<le> offsetX + j * s + s) (\<lambda>_. bitmap src (j + 1, y + 1)) t)"
      by (rule dy_loop) (use dims c ox s m0 m1 in \<open>simp_all add: t m_def\<close>)
    also have "paint (\<lambda>(p, q). offsetY + y * s < q \<and> q \<le> offsetY + y * s + s
                       \<and> offsetX + j * s < p \<and> p \<le> offsetX + j * s + s) (\<lambda>_. bitmap src (j + 1, y + 1)) t
        = paint (\<lambda>(p, q). c < q \<and> q \<le> c + s \<and> offsetX < p \<and> p \<le> offsetX + (j + 1) * s) v out"
      unfolding t paint_paint c_def [symmetric] m_def [symmetric]
    proof (rule paint_cong, goal_cases)
      case (1 p)
      show ?case using m0 s by (auto simp: m_def algebra_simps)
    next
      case (2 p)
      obtain a b where p: "p = (a, b)" by (cases p)
      show ?case
      proof (cases "offsetX + m < a \<and> a \<le> offsetX + m + s")
        case True
        then have "(a - offsetX - 1) div s = j"
          using div_block [of j s "a - offsetX"] by (simp add: m_def)
        then show ?thesis using 2 True by (simp add: p v_def algebra_simps)
      next
        case False
        then show ?thesis using 2 by (auto simp: p)
      qed
    qed
    finally show "\<exists>t'. ?body j t = Inr t' \<and> P (j + 1) t'"
      by (simp add: P_def)
  qed
  then show ?thesis
    by (auto simp: upscale_x_loop_def P_def c_def v_def)
qed

lemma y_loop:
  assumes dims: "width out = 1200" "height out = 1200"
    and oy: "0 \<le> offsetY" "offsetY + height src * s \<le> 1200"
    and ox: "0 \<le> offsetX" "offsetX + width src * s \<le> 1200" and s: "0 \<le> s"
    and w: "0 \<le> width src" and h: "0 \<le> height src"
  shows "upscale_y_loop src offsetX offsetY s out =
    Inr (paint (\<lambda>(p, q). offsetY < q \<and> q \<le> offsetY + height src * s
                       \<and> offsetX < p \<and> p \<le> offsetX + width src * s)
               (\<lambda>(p, q). bitmap src ((p - 1 - offsetX) div s + 1, (q - 1 - offsetY) div s + 1)) out)"
proof -
  define v where "v = (\<lambda>(p :: int, q :: int).
    bitmap src ((p - 1 - offsetX) div s + 1, (q - 1 - offsetY) div s + 1))"
  define e where "e = offsetX + width src * s"
  define P where "P j t \<longleftrightarrow>
    t = paint (\<lambda>(p, q). offsetY < q \<and> q \<le> offsetY + j * s \<and> offsetX < p \<and> p \<le> e) v out" for j t
  let ?body = "\<lambda>y outputImage. upscale_x_loop src offsetX offsetY y s outputImage"
  have "\<exists>t. for_loop 0 (height src) ?body out = Inr t \<and> P (height src) t"
  proof (rule for_loop_inv)
    show "P 0 out" unfolding P_def by (rule paint_none [symmetric]) auto
    show "0 \<le> height src" by fact
  next
    fix j t assume j: "0 \<le> j" "j < height src" and "P j t"
    then have t: "t = paint (\<lambda>(p, q). offsetY < q \<and> q \<le> offsetY + j * s \<and> offsetX < p \<and> p \<le> e) v out"
      by (simp add: P_def)
    define m where "m = j * s"
    have m0: "0 \<le> m" using j s by (simp add: m_def)
    have "(j + 1) * s \<le> height src * s"
      using j s by (intro mult_right_mono) simp_all
    then have m1: "offsetY + m + s \<le> 1200"
      using oy by (simp add: m_def algebra_simps)
    have "?body j t = Inr (paint (\<lambda>(p, q). offsetY + j * s < q \<and> q \<le> offsetY + j * s + s
                       \<and> offsetX < p \<and> p \<le> offsetX + width src * s)
               (\<lambda>(p, q). bitmap src ((p - 1 - offsetX) div s + 1, j + 1)) t)"
      by (rule x_loop) (use dims j oy ox s w m0 m1 in \<open>simp_all add: t m_def\<close>)
    also have "paint (\<lambda>(p, q). offsetY + j * s < q \<and> q \<le> offsetY + j * s + s
                       \<and> offsetX < p \<and> p \<le> offsetX + width src * s)
               (\<lambda>(p, q). bitmap src ((p - 1 - offsetX) div s + 1, j + 1)) t
        = paint (\<lambda>(p, q). offsetY < q \<and> q \<le> offsetY + (j + 1) * s \<and> offsetX < p \<and> p \<le> e) v out"
      unfolding t paint_paint e_def [symmetric] m_def [symmetric]
    proof (rule paint_cong, goal_cases)
      case (1 p)
      show ?case using m0 s by (auto simp: m_def algebra_simps)
    next
      case (2 p)
      obtain a b where p: "p = (a, b)" by (cases p)
      show ?case
      proof (cases "offsetY + m < b \<and> b \<le> offsetY + m + s")
        case True
        then have "(b - offsetY - 1) div s = j"
          using div_block [of j s "b - offsetY"] by (simp add: m_def)
        then show ?thesis using 2 True by (simp add: p v_def algebra_simps)
      next
        case False
        then show ?thesis using 2 by (auto simp: p)
      qed
    qed
    finally show "\<exists>t'. ?body j t = Inr t' \<and> P (j + 1) t'"
      by (simp add: P_def)
  qed
  then show ?thesis
    by (auto simp: upscale_y_loop_def P_def e_def v_def)
qed

lemma mult_div_le_int:
  fixes a b :: int
  assumes "0 < b"
  shows "b * (a div b) \<le> a"
proof -
  have "a = b * (a div b) + a mod b" by simp
  moreover have "0 \<le> a mod b" using assms by simp
  ultimately show ?thesis by linarith
qed

lemma scale_of_facts:
  assumes "0 < w" "0 < h"
  shows "0 \<le> scale_of w h" "w * scale_of w h \<le> 1200" "h * scale_of w h \<le> 1200"
proof -
  have a: "0 \<le> 1200 div w" "0 \<le> 1200 div h"
    using assms by (simp_all add: pos_imp_zdiv_nonneg_iff)
  then show "0 \<le> scale_of w h"
    by (simp add: scale_of_def rawScale_def targetSize_def Let_def)
  have "scale_of w h \<le> 1200 div w" "scale_of w h \<le> 1200 div h"
    by (simp_all add: scale_of_def targetSize_def)
  then have "w * scale_of w h \<le> w * (1200 div w)" "h * scale_of w h \<le> h * (1200 div h)"
    using assms by (simp_all add: mult_left_mono)
  moreover have "w * (1200 div w) \<le> 1200" "h * (1200 div h) \<le> 1200"
    using assms by (simp_all add: mult_div_le_int)
  ultimately show "w * scale_of w h \<le> 1200" "h * scale_of w h \<le> 1200"
    by linarith+
qed

lemma upscale_result:
  assumes "0 < width src" "0 < height src"
  defines "s \<equiv> scale_of (width src) (height src)"
  defines "ox \<equiv> (1200 - width src * s) div 2"
  defines "oy \<equiv> (1200 - height src * s) div 2"
  shows "upscale src = Inr (\<lparr>width = 1200, height = 1200,
      bitmap = (\<lambda>(p, q). if oy < q \<and> q \<le> oy + height src * s \<and> ox < p \<and> p \<le> ox + width src * s
                 then bitmap src ((p - 1 - ox) div s + 1, (q - 1 - oy) div s + 1) else 0)\<rparr>, s)"
proof -
  note f = scale_of_facts [OF assms(1,2), folded s_def]
  have o: "0 \<le> ox" "ox + width src * s \<le> 1200" "0 \<le> oy" "oy + height src * s \<le> 1200"
    using f by (simp_all add: ox_def oy_def)
  let ?canvas = "fill 0 (new_Image targetSize targetSize)"
  have canvas: "?canvas = \<lparr>width = 1200, height = 1200, bitmap = (\<lambda>_. 0)\<rparr>"
    by (simp add: fill_def new_Image_def targetSize_def fun_eq_iff)
  have "upscale_y_loop src ox oy s ?canvas =
    Inr (paint (\<lambda>(p, q). oy < q \<and> q \<le> oy + height src * s \<and> ox < p \<and> p \<le> ox + width src * s)
               (\<lambda>(p, q). bitmap src ((p - 1 - ox) div s + 1, (q - 1 - oy) div s + 1)) ?canvas)"
    by (rule y_loop) (use o f assms(1,2) in \<open>simp_all add: canvas\<close>)
  then have "upscale src = Inr (paint (\<lambda>(p, q). oy < q \<and> q \<le> oy + height src * s \<and> ox < p \<and> p \<le> ox + width src * s)
               (\<lambda>(p, q). bitmap src ((p - 1 - ox) div s + 1, (q - 1 - oy) div s + 1)) ?canvas, s)"
    unfolding upscale_def Let_def s_def [symmetric]
    by (simp add: targetSize_def ox_def oy_def)
  then show ?thesis
    unfolding canvas by (simp add: paint_def fun_eq_iff)
qed

lemma int_div_eqI:
  fixes a b q :: int
  assumes "b * q \<le> a" "a < b * q + b"
  shows "a div b = q"
proof (rule int_div_pos_eq)
  show "a = b * q + (a - b * q)" by simp
  show "0 \<le> a - b * q" using assms by simp
  show "a - b * q < b" using assms by simp
qed

text \<open>
  Claim C1. For a decoded source of positive width \<open>w\<close> and height \<open>h\<close>, the integer
  upscale returns a canvas of exactly 1200x1200 pixels; the scale factor is
  \<open>max 2 (1200 div max w h)\<close> clamped by \<open>1200 div w\<close> and \<open>1200 div h\<close>, so that the
  scaled copy fits; the copy sits at the offsets \<open>(1200 - scale * w) div 2\<close> and
  \<open>(1200 - scale * h) div 2\<close>; every source pixel fills its scale-by-scale block, and every
  pixel outside the scaled copy stays transparent.
\<close>

theorem upscale_canvas_scale_offsets:
  assumes "0 < width src" and "0 < height src"
  shows "let w = width src; h = height src;
             scale = min (max 2 (1200 div max w h)) (min (1200 div w) (1200 div h));
             offsetX = (1200 - scale * w) div 2;
             offsetY = (1200 - scale * h) div 2
         in scale * w \<le> 1200 \<and> scale * h \<le> 1200 \<and>
            (\<exists>out. upscale src = Inr (out, scale) \<and> width out = 1200 \<and> height out = 1200 \<and>
               (\<forall>x y dx dy. 0 \<le> x \<and> x < w \<and> 0 \<le> y \<and> y < h \<and> 0 \<le> dx \<and> dx < scale \<and> 0 \<le> dy \<and> dy < scale
                  \<longrightarrow> bitmap out (offsetX + x * scale + dx + 1, offsetY + y * scale + dy + 1)
                        = bitmap src (x + 1, y + 1)) \<and>
               (\<forall>p q. \<not> (offsetX < p \<and> p \<le> offsetX + scale * w \<and> offsetY < q \<and> q \<le> offsetY + scale * h)
                  \<longrightarrow> bitmap out (p, q) = 0))"
proof -
  define w h where "w = width src" and "h = height src"
  define s where "s = scale_of w h"
  define ox oy where "ox = (1200 - w * s) div 2" and "oy = (1200 - h * s) div 2"
  have s_eq: "min (max 2 (1200 div max w h)) (min (1200 div w) (1200 div h)) = s"
    by (simp add: s_def scale_of_def rawScale_def targetSize_def)
  have f: "0 \<le> s" "w * s \<le> 1200" "h * s \<le> 1200"
    using scale_of_facts [OF assms] by (simp_all add: w_def h_def s_def)
  let ?out = "\<lparr>width = 1200, height = 1200,
      bitmap = (\<lambda>(p, q). if oy < q \<and> q \<le> oy + h * s \<and> ox < p \<and> p \<le> ox + w * s
                 then bitmap src ((p - 1 - ox) div s + 1, (q - 1 - oy) div s + 1) else 0)\<rparr>"
  have blocks: "bitmap ?out (ox + x * s + dx + 1, oy + y * s + dy + 1) = bitmap src (x + 1, y + 1)"
    if "0 \<le> x" "x < w" "0 \<le> y" "y < h" "0 \<le> dx" "dx < s" "0 \<le> dy" "dy < s" for x y dx dy
  proof -
    have "(x + 1) * s \<le> w * s" "(y + 1) * s \<le> h * s"
      using that f(1) by (intro mult_right_mono; simp)+
    then have le: "x * s + dx + 1 \<le> w * s" "y * s + dy + 1 \<le> h * s"
      using that by (simp_all add: algebra_simps)
    have ge: "0 \<le> x * s" "0 \<le> y * s" using that f(1) by simp_all
    have "(x * s + dx) div s = x" "(y * s + dy) div s = y"
      using that by (simp_all add: int_div_eqI mult.commute)
    then have "(ox + x * s + dx + 1 - 1 - ox) div s = x" "(oy + y * s + dy + 1 - 1 - oy) div s = y"
      by simp_all
    then show ?thesis using le ge that by simp
  qed
  have outside: "bitmap ?out (p, q) = 0"
    if "\<not> (ox < p \<and> p \<le> ox + s * w \<and> oy < q \<and> q \<le> oy + s * h)" for p q
    using that by (auto simp: mult.commute)
  have ex: "\<exists>out. upscale src = Inr (out, s) \<and> width out = 1200 \<and> height out = 1200 \<and>
      (\<forall>x y dx dy. 0 \<le> x \<and> x < w \<and> 0 \<le> y \<and> y < h \<and> 0 \<le> dx \<and> dx < s \<and> 0 \<le> dy \<and> dy < s
          \<longrightarrow> bitmap out (ox + x * s + dx + 1, oy + y * s + dy + 1) = bitmap src (x + 1, y + 1)) \<and>
      (\<forall>p q. \<not> (ox < p \<and> p \<le> ox + s * w \<and> oy < q \<and> q \<le> oy + s * h) \<longrightarrow> bitmap out (p, q) = 0)"
  proof (intro exI [of _ ?out] conjI allI impI)
    show "upscale src = Inr (?out, s)"
      unfolding ox_def oy_def s_def w_def h_def by (rule upscale_result [OF assms])
    show "width ?out = 1200" "height ?out = 1200" by simp_all
  next
    fix x y dx dy
    assume "0 \<le> x \<and> x < w \<and> 0 \<le> y \<and> y < h \<and> 0 \<le> dx \<and> dx < s \<and> 0 \<le> dy \<and> dy < s"
    then show "bitmap ?out (ox + x * s + dx + 1, oy + y * s + dy + 1) = bitmap src (x + 1, y + 1)"
      by (intro blocks) simp_all
  next
    fix p q
    assume "\<not> (ox < p \<and> p \<le> ox + s * w \<and> oy < q \<and> q \<le> oy + s * h)"
    then show "bitmap ?out (p, q) = 0" by (rule outside)
  qed
  have le: "s * w \<le> 1200" "s * h \<le> 1200"
    using f by (simp_all add: mult.commute)
  have o: "(1200 - s * w) div 2 = ox" "(1200 - s * h) div 2 = oy"
    by (simp_all add: ox_def oy_def mult.commute)
  show ?thesis
    unfolding Let_def w_def [symmetric] h_def [symmetric] s_eq o
    using le ex by blast
qed

text \<open>The theorem at the 2x1 source: scale 600, offsets 0 and 300.\<close>

theorem upscale_canvas_scale_offsets_witness:
  "0 < width two_pixels \<and> 0 < height two_pixels \<and>
   (\<exists>out. upscale two_pixels = Inr (out, 600) \<and> width out = 1200 \<and> height out = 1200 \<and>
      bitmap out (1, 301) = 0xFF0000FF \<and> bitmap out (1200, 900) = 0x00FF00FF \<and>
      bitmap out (1, 300) = 0)"
proof -
  have pos: "0 < width two_pixels" "0 < height two_pixels"
    by (simp_all add: two_pixels_def)
  from upscale_canvas_scale_offsets [OF pos]
  obtain out where out: "upscale two_pixels = Inr (out, 600)" "width out = 1200" "height out = 1200"
    and blocks: "\<forall>x y dx dy. 0 \<le> x \<and> x < 2 \<and> 0 \<le> y \<and> y < 1 \<and> 0 \<le> dx \<and> dx < 600 \<and> 0 \<le> dy \<and> dy < 600
        \<longrightarrow> bitmap out (0 + x * 600 + dx + 1, 300 + y * 600 + dy + 1) = bitmap two_pixels (x + 1, y + 1)"
    and outside: "\<forall>p q. \<not> (0 < p \<and> p \<le> 0 + 1200 \<and> 300 < q \<and> q \<le> 300 + 600) \<longrightarrow> bitmap out (p, q) = 0"
    by (auto simp: two_pixels_def Let_def)
  from blocks [rule_format, of 0 0 0 0] have "bitmap out (1, 301) = 0xFF0000FF"
    by (simp add: two_pixels_def)
  moreover from blocks [rule_format, of 1 0 599 599] have "bitmap out (1200, 900) = 0x00FF00FF"
    by (simp add: two_pixels_def)
  moreover from outside [rule_format, of 1 300] have "bitmap out (1, 300) = 0"
    by simp
  ultimately show ?thesis using pos out by blast
qed





subsection \<open>Base64 round trip\<close>

lemma b64_value_char_all: "list_all (\<lambda>n. b64_value (b64_char n) = Some n) [0..<64]"
  by code_simp

lemma b64_value_char: "n < 64 \<Longrightarrow> b64_value (b64_char n) = Some n"
  using b64_value_char_all by (simp add: list_all_iff)

lemma b64_char_plain_all:
  "list_all (\<lambda>n. b64_char n \<noteq> CHR ''='' \<and> \<not> is_ascii_whitespace (b64_char n)) [0..<64]"
  by code_simp

lemma b64_char_plain: "n < 64 \<Longrightarrow> b64_char n \<noteq> CHR ''='' \<and> \<not> is_ascii_whitespace (b64_char n)"
  using b64_char_plain_all by (simp add: list_all_iff)

lemma b64_pad_simps [simp]:
  "b64_pad [] = 0" "b64_pad [a] = 2" "b64_pad [a, b] = 1" "b64_pad (a # b # c # rest) = b64_pad rest"
  by (simp_all add: b64_pad_def)

lemma b64_encode_shape:
  "b64_encode xs = map b64_char (b64_sextets xs) @ replicate (b64_pad xs) CHR ''=''"
  by (induction xs rule: b64_sextets.induct) (simp_all add: numeral_2_eq_2)

lemma b64_pad_le: "b64_pad xs \<le> 2"
  by (simp add: b64_pad_def)

lemma b64_sextets_bound: "\<forall>x\<in>set xs. x < 256 \<Longrightarrow> \<forall>v\<in>set (b64_sextets xs). v < 64"
  by (induction xs rule: b64_sextets.induct) (auto simp: less_mult_imp_div_less)

lemma b64_encode_length: "length (b64_encode xs) mod 4 = 0"
  by (induction xs rule: b64_encode.induct) simp_all

lemma b64_sextets_length_mod: "length (b64_sextets xs) mod 4 \<noteq> 1"
  by (induction xs rule: b64_sextets.induct) (simp_all add: mod_Suc)

lemma byte_div_bounds:
  fixes b :: nat
  assumes "b < 256"
  shows "b div 16 < 16" "b div 64 < 4"
  using assms by (simp_all add: less_mult_imp_div_less)

lemma b64_decode_sextets: "\<forall>x\<in>set xs. x < 256 \<Longrightarrow> b64_decode (b64_sextets xs) = xs"
  by (induction xs rule: b64_sextets.induct) (simp_all add: byte_div_bounds)


lemma those_b64_value: "\<forall>v\<in>set sx. v < 64 \<Longrightarrow> those (map b64_value (map b64_char sx)) = Some sx"
  by (induction sx) (simp_all add: b64_value_char)

lemma filter_b64_chars:
  "\<forall>v\<in>set sx. v < 64 \<Longrightarrow>
   filter (\<lambda>c. \<not> is_ascii_whitespace c) (map b64_char sx @ replicate k CHR ''='')
     = map b64_char sx @ replicate k CHR ''=''"
proof -
  have "\<not> is_ascii_whitespace CHR ''=''"
    by (simp add: is_ascii_whitespace_def)
  then show ?thesis if "\<forall>v\<in>set sx. v < 64"
    using that by (auto simp: filter_id_conv b64_char_plain)
qed

lemma strip_padding_append:
  assumes len: "length (A @ replicate k CHR ''='') mod 4 = 0" and k: "k \<le> 2"
    and last: "A = [] \<or> last A \<noteq> CHR ''=''"
  shows "strip_padding (A @ replicate k CHR ''='') = A"
proof -
  consider "k = 0" | "k = 1" | "k = 2" using k by linarith
  then show ?thesis
  proof cases
    case 1
    show ?thesis
    proof (cases A rule: rev_cases)
      case Nil
      then show ?thesis using 1 by (simp add: strip_padding_def)
    next
      case (snoc B c)
      then show ?thesis
        using 1 last by (cases "rev B") (simp_all add: strip_padding_def)
    qed
  next
    case 2
    show ?thesis
    proof (cases A rule: rev_cases)
      case Nil
      then show ?thesis using 2 len by simp
    next
      case (snoc B c)
      then show ?thesis
        using 2 last len by (simp add: strip_padding_def)
    qed
  next
    case 3
    then show ?thesis
      using len by (simp add: strip_padding_def numeral_2_eq_2)
  qed
qed

lemma strip_padding_shape:
  assumes sx: "\<forall>v\<in>set sx. v < 64" and k: "k \<le> 2"
    and len: "length (map b64_char sx @ replicate k CHR ''='') mod 4 = 0"
  shows "strip_padding (map b64_char sx @ replicate k CHR ''='') = map b64_char sx"
proof (rule strip_padding_append [OF len k])
  show "map b64_char sx = [] \<or> last (map b64_char sx) \<noteq> CHR ''=''"
  proof (cases sx rule: rev_cases)
    case Nil
    then show ?thesis by simp
  next
    case (snoc ys v)
    then show ?thesis using sx b64_char_plain [of v] by simp
  qed
qed

lemma atob_b64_encode:
  assumes "\<forall>x\<in>set xs. x < 256"
  shows "atob (b64_encode xs) = Inr (map char_of xs)"
proof -
  let ?sx = "b64_sextets xs"
  have sx: "\<forall>v\<in>set ?sx. v < 64"
    using assms by (rule b64_sextets_bound)
  have len: "length (map b64_char ?sx @ replicate (b64_pad xs) CHR ''='') mod 4 = 0"
    using b64_encode_length [of xs] by (simp only: b64_encode_shape)
  have "strip_padding (filter (\<lambda>c. \<not> is_ascii_whitespace c) (b64_encode xs)) = map b64_char ?sx"
    unfolding b64_encode_shape filter_b64_chars [OF sx]
    by (rule strip_padding_shape [OF sx b64_pad_le len])
  then show ?thesis
    using b64_sextets_length_mod [of xs] those_b64_value [OF sx] b64_decode_sextets [OF assms]
    by (simp add: atob_def)
qed

text \<open>
  Claim C10. The cache codec round-trips: for every byte array, \<open>toBase64\<close> returns a
  string, and \<open>fromBase64\<close> of that string returns exactly the bytes, so a PNG stored as
  base64 is served back byte-identical.
\<close>

theorem fromBase64_toBase64:
  "\<exists>b64. toBase64 data = Inr b64 \<and> fromBase64 b64 = Inr data"
proof -
  let ?codes = "map unat data"
  have "unat b < 256" for b :: byte
    using unsigned_less [of b, where 'a = nat] by simp
  then have m: "unat b mod 256 = unat b" for b :: byte
    by simp
  have codes: "\<forall>x\<in>set ?codes. x < 256"
    using \<open>\<And>b :: byte. unat b < 256\<close> by auto
  have enc: "toBase64 data = Inr (b64_encode ?codes)"
    by (simp add: toBase64_def btoa_def comp_def m)
  have "fromBase64 (b64_encode ?codes) = Inr (map (\<lambda>c. of_nat (of_char c)) (map char_of ?codes))"
    by (simp add: fromBase64_def atob_b64_encode [OF codes])
  also have "map (\<lambda>c. of_nat (of_char c) :: byte) (map char_of ?codes) = data"
    by (simp add: comp_def m map_idI)
  finally show ?thesis using enc by simp
qed

subsection \<open>Retry policy of the rendering-worker client\<close>

lemma cf_attempt_last: "cf_attempt outcome 2 \<noteq> Retry"
  by (auto simp: cf_attempt_def maxRetries_def Let_def split: http_result.splits sum.splits)

lemma cf_attempt_never_retried:
  "never_retried outcome \<Longrightarrow> cf_attempt outcome attempt = Return None"
  by (auto simp: cf_attempt_def never_retried_def isRetryable_def response_ok_def Let_def
      split: http_result.splits sum.splits)

lemma cf_attempt_retried:
  "retried outcome \<Longrightarrow> attempt < 2 \<Longrightarrow> cf_attempt outcome attempt = Retry"
  "retried outcome \<Longrightarrow> cf_attempt outcome 2 = Return None"
  by (auto simp: cf_attempt_def retried_def response_ok_def maxRetries_def Let_def
      split: http_result.splits sum.splits)

lemma cf_loop_2:
  "snd (cf_loop W params ft 2 h) = h @ [Attempt params ft]"
  using cf_attempt_last [of "cf_worker W h params"]
  by (subst cf_loop.simps) (auto simp: maxRetries_def split: attempt_result.splits)

lemma cf_loop_1:
  "snd (cf_loop W params ft 1 h) \<in>
     {h @ [Attempt params ft], h @ [Attempt params ft, Sleep 4000, Attempt params ft]}"
  using cf_loop_2 [of W params ft "h @ [Attempt params ft, Sleep 4000]"]
  by (subst cf_loop.simps) (auto simp: maxRetries_def retryDelays_def split: attempt_result.splits)

lemma cf_loop_0:
  "snd (cf_loop W params ft 0 h) \<in>
     {h @ [Attempt params ft], h @ [Attempt params ft, Sleep 2000, Attempt params ft],
      h @ [Attempt params ft, Sleep 2000, Attempt params ft, Sleep 4000, Attempt params ft]}"
  using cf_loop_1 [of W params ft "h @ [Attempt params ft, Sleep 2000]"]
  by (subst cf_loop.simps) (auto simp: maxRetries_def retryDelays_def split: attempt_result.splits)

lemma cf_loop_never_retried:
  assumes "never_retried (cf_worker W h params)" "attempt \<le> 2"
  shows "cf_loop W params ft attempt h = (None, h @ [Attempt params ft])"
  using assms cf_attempt_never_retried [OF assms(1), of attempt]
  by (subst cf_loop.simps) (simp add: maxRetries_def)

lemma cf_loop_all_retried:
  assumes "\<forall>h. retried (cf_worker W h params)"
  shows "cf_loop W params ft 0 h =
    (None, h @ [Attempt params ft, Sleep 2000, Attempt params ft, Sleep 4000, Attempt params ft])"
proof -
  have r: "retried (cf_worker W h params)" for h using assms by simp
  have 2: "cf_loop W params ft 2 h = (None, h @ [Attempt params ft])" for h
    using cf_attempt_retried(2) [OF r [of h]]
    by (subst cf_loop.simps) (simp add: maxRetries_def)
  have 1: "cf_loop W params ft 1 h = (None, h @ [Attempt params ft, Sleep 4000, Attempt params ft])" for h
    using cf_attempt_retried(1) [OF r [of h], of 1] 2 [of "h @ [Attempt params ft, Sleep 4000]"]
    by (subst cf_loop.simps) (simp add: maxRetries_def retryDelays_def)
  show ?thesis
    using cf_attempt_retried(1) [OF r [of h], of 0] 1 [of "h @ [Attempt params ft, Sleep 2000]"]
    by (subst cf_loop.simps) (simp add: maxRetries_def retryDelays_def)
qed

text \<open>
  Claim C3. A call of the rendering-worker client makes at most three attempts, with a sleep
  of exactly 2000 ms before the second and of 4000 ms before the third. When every attempt
  ends in a server error (status 500 or more) or in a recognised transport error, it makes
  all three and fails. An attempt that ends in a 4xx response or in an abort or timeout
  error is the last one: the call fails right after it, whether it is the first attempt or
  follows a retry.
\<close>

theorem renderWithCloudflare_retry_policy:
  "let A = Attempt params (case req_timeout params of None \<Rightarrow> 30000 | Some t \<Rightarrow> t) in
   snd (renderWithCloudflare W params tr) \<in>
     {tr, tr @ [A], tr @ [A, Sleep 2000, A], tr @ [A, Sleep 2000, A, Sleep 4000, A]} \<and>
   (cf_configured W \<and> (\<forall>h. retried (cf_worker W h params)) \<longrightarrow>
      renderWithCloudflare W params tr = (None, tr @ [A, Sleep 2000, A, Sleep 4000, A])) \<and>
   (cf_configured W \<and> never_retried (cf_worker W tr params) \<longrightarrow>
      renderWithCloudflare W params tr = (None, tr @ [A])) \<and>
   (cf_configured W \<and> retried (cf_worker W tr params) \<and>
    never_retried (cf_worker W (tr @ [A, Sleep 2000]) params) \<longrightarrow>
      renderWithCloudflare W params tr = (None, tr @ [A, Sleep 2000, A]))"
proof -
  define ft where "ft = (case req_timeout params of None \<Rightarrow> 30000 | Some t \<Rightarrow> t)"
  define A where "A = Attempt params ft"
  have 1: "snd (renderWithCloudflare W params tr) \<in>
     {tr, tr @ [A], tr @ [A, Sleep 2000, A], tr @ [A, Sleep 2000, A, Sleep 4000, A]}"
  proof (cases "cf_configured W")
    case True
    then show ?thesis
      using cf_loop_0 [of W params ft tr]
      by (auto simp: renderWithCloudflare_def ft_def [symmetric] A_def)
  next
    case False
    then show ?thesis by (simp add: renderWithCloudflare_def)
  qed
  have 2: "renderWithCloudflare W params tr = (None, tr @ [A, Sleep 2000, A, Sleep 4000, A])"
    if "cf_configured W" "\<forall>h. retried (cf_worker W h params)"
    using that cf_loop_all_retried [of W params ft tr]
    by (simp add: renderWithCloudflare_def ft_def [symmetric] A_def)
  have 3: "renderWithCloudflare W params tr = (None, tr @ [A])"
    if "cf_configured W" "never_retried (cf_worker W tr params)"
    using that cf_loop_never_retried [of W tr params 0 ft]
    by (simp add: renderWithCloudflare_def ft_def [symmetric] A_def)
  have 4: "renderWithCloudflare W params tr = (None, tr @ [A, Sleep 2000, A])"
    if "cf_configured W" "retried (cf_worker W tr params)"
      "never_retried (cf_worker W (tr @ [A, Sleep 2000]) params)"
  proof -
    have "cf_loop W params ft 0 tr = cf_loop W params ft 1 (tr @ [A, Sleep 2000])"
      using cf_attempt_retried(1) [OF that(2), of 0]
      by (subst cf_loop.simps) (simp add: maxRetries_def retryDelays_def A_def)
    also have "\<dots> = (None, (tr @ [A, Sleep 2000]) @ [A])"
      unfolding A_def by (rule cf_loop_never_retried) (use that(3) in \<open>simp_all add: A_def\<close>)
    finally show ?thesis using that(1)
      by (simp add: renderWithCloudflare_def ft_def [symmetric])
  qed
  show ?thesis
    unfolding Let_def ft_def [symmetric] A_def [symmetric]
    using 1 2 3 4 by blast
qed

text \<open>
  The theorem in three worlds: the worker always answers 503; it answers 404; the first
  request meets a network error and the second is aborted.
\<close>

theorem renderWithCloudflare_retry_policy_witness:
  "(let W = sample_world (\<lambda>_ _. Response 503 (Inr [])); A = Attempt (url_request ''u'') 30000 in
    cf_configured W \<and> (\<forall>h. retried (cf_worker W h (url_request ''u''))) \<and>
    renderWithCloudflare W (url_request ''u'') [] = (None, [A, Sleep 2000, A, Sleep 4000, A])) \<and>
   (let W = sample_world (\<lambda>_ _. Response 404 (Inr [])); A = Attempt (url_request ''u'') 30000 in
    cf_configured W \<and> never_retried (cf_worker W [] (url_request ''u'')) \<and>
    renderWithCloudflare W (url_request ''u'') [] = (None, [A])) \<and>
   (let W = sample_world (\<lambda>h _. if h = [] then FetchThrew (JsError ''TypeError'' ''network error'')
                                  else FetchThrew (JsError ''AbortError'' ''The signal has been aborted''));
        A = Attempt (url_request ''u'') 30000 in
    cf_configured W \<and> retried (cf_worker W [] (url_request ''u'')) \<and>
    never_retried (cf_worker W ([] @ [A, Sleep 2000]) (url_request ''u'')) \<and>
    renderWithCloudflare W (url_request ''u'') [] = (None, [A, Sleep 2000, A]))"
  using renderWithCloudflare_retry_policy [of "url_request ''u''" "sample_world (\<lambda>_ _. Response 503 (Inr []))" "[]"]
    renderWithCloudflare_retry_policy [of "url_request ''u''" "sample_world (\<lambda>_ _. Response 404 (Inr []))" "[]"]
    renderWithCloudflare_retry_policy [of "url_request ''u''" "sample_world (\<lambda>h _. if h = [] then FetchThrew (JsError ''TypeError'' ''network error'')
                                  else FetchThrew (JsError ''AbortError'' ''The signal has been aborted''))" "[]"]
  by (simp add: Let_def sample_world_def url_request_def retried_def never_retried_def
      isRetryable_def isAbort_def toLowerCase_def lower_char_def startsWith_def)

subsection \<open>The audio visualizer\<close>

lemma for_loop_preserves:
  assumes "P s" and "\<And>j t. P t \<Longrightarrow> \<exists>t'. body j t = Inr t' \<and> P t'"
  shows "\<exists>t. for_loop i hi body s = Inr t \<and> P t"
  using assms
proof (induction i hi body s rule: for_loop.induct)
  case (1 i hi body s)
  show ?case
  proof (cases "i < hi")
    case True
    obtain s' where s': "body i s = Inr s'" "P s'"
      using "1.prems"(2) [OF "1.prems"(1), of i] by auto
    have "\<exists>t. for_loop (i + 1) hi body s' = Inr t \<and> P t"
      by (rule "1.IH" [OF True s'(1) s'(2)]) (rule "1.prems"(2))
    then show ?thesis
      using True s'(1) by (subst for_loop.simps) simp
  next
    case False
    then show ?thesis using "1.prems"(1) by (simp add: for_loop.simps)
  qed
qed

lemma setPixelAt_canvas:
  "canvas_sized img \<Longrightarrow> 1 \<le> x \<Longrightarrow> x \<le> 1200 \<Longrightarrow> 1 \<le> y \<Longrightarrow> y \<le> 1200 \<Longrightarrow>
   \<exists>img'. setPixelAt img x y c = Inr img' \<and> canvas_sized img'"
  by (simp add: setPixelAt_def in_bounds_def canvas_sized_def)

lemma audio_bar_total:
  assumes "canvas_sized (snd s)"
  shows "\<exists>s'. audio_bar W i s = Inr s' \<and> canvas_sized (snd s')"
proof -
  obtain seed img where s: "s = (seed, img)" by (cases s)
  define color where "color = colors ! nat (rng_next (rng_next seed) mod 4)"
  define x where "x = startX + i * (barWidth + gap)"
  have inner: "\<exists>t'. for_loop 0 barWidth (\<lambda>dx img'.
        let px = x + dx in
        if px < 1 \<or> px > targetSize then Inr img'
        else setPixelAt img' px py color) t = Inr t' \<and> canvas_sized t'"
    if "canvas_sized t" "1 \<le> py" "py \<le> 1200" for t py
  proof (rule for_loop_preserves [where P = canvas_sized, OF that(1)])
    fix j t0 assume "canvas_sized t0"
    then show "\<exists>t'. (let px = x + j in
        if px < 1 \<or> px > targetSize then Inr t0 else setPixelAt t0 px py color) = Inr t' \<and> canvas_sized t'"
      using setPixelAt_canvas [of t0 "x + j" py color] that(2,3)
      by (auto simp: Let_def targetSize_def)
  qed
  have outer: "\<exists>t'. for_loop lo hi (\<lambda>dy img.
        let py = centerY + dy in
        if py < 1 \<or> py > targetSize then Inr img
        else for_loop 0 barWidth (\<lambda>dx img'.
               let px = x + dx in
               if px < 1 \<or> px > targetSize then Inr img'
               else setPixelAt img' px py color) img) img = Inr t' \<and> canvas_sized t'" for lo hi
  proof (rule for_loop_preserves [where P = canvas_sized])
    show "canvas_sized img" using assms s by simp
  next
    fix j t0 assume t0: "canvas_sized t0"
    show "\<exists>t'. (let py = centerY + j in
        if py < 1 \<or> py > targetSize then Inr t0
        else for_loop 0 barWidth (\<lambda>dx img'.
               let px = x + dx in
               if px < 1 \<or> px > targetSize then Inr img'
               else setPixelAt img' px py color) t0) = Inr t' \<and> canvas_sized t'"
    proof (cases "centerY + j < 1 \<or> centerY + j > targetSize")
      case True
      then show ?thesis using t0 by (simp add: Let_def)
    next
      case False
      then show ?thesis
        using inner [OF t0, of "centerY + j"] by (simp add: Let_def targetSize_def)
    qed
  qed
  obtain t' where "for_loop (- bar_height W i (rng_next seed mod 700))
        (bar_height W i (rng_next seed mod 700) + 1) (\<lambda>dy img.
        let py = centerY + dy in
        if py < 1 \<or> py > targetSize then Inr img
        else for_loop 0 barWidth (\<lambda>dx img'.
               let px = x + dx in
               if px < 1 \<or> px > targetSize then Inr img'
               else setPixelAt img' px py color) img) img = Inr t'" "canvas_sized t'"
    using outer by blast
  then show ?thesis
    unfolding s audio_bar_def x_def color_def by (simp add: Let_def)
qed

lemma audio_circle_total:
  assumes "canvas_sized img"
  shows "\<exists>img'. audio_circle img = Inr img' \<and> canvas_sized img'"
  unfolding audio_circle_def
proof (rule for_loop_preserves [where P = canvas_sized, OF assms])
  fix dy t assume t: "canvas_sized t"
  show "\<exists>t'. for_loop (- 60) 61 (\<lambda>dx img'.
         if dx * dx + dy * dy \<le> 60 * 60
         then (let px = targetSize div 2 + dx; py = 600 + dy in
               if px \<ge> 1 \<and> px \<le> targetSize \<and> py \<ge> 1 \<and> py \<le> targetSize
               then setPixelAt img' px py 0x14001fcc else Inr img')
         else Inr img') t = Inr t' \<and> canvas_sized t'"
  proof (rule for_loop_preserves [where P = canvas_sized, OF t])
    fix dx t0 assume "canvas_sized t0"
    then show "\<exists>t'. (if dx * dx + dy * dy \<le> 60 * 60
         then (let px = targetSize div 2 + dx; py = 600 + dy in
               if px \<ge> 1 \<and> px \<le> targetSize \<and> py \<ge> 1 \<and> py \<le> targetSize
               then setPixelAt t0 px py 0x14001fcc else Inr t0)
         else Inr t0) = Inr t' \<and> canvas_sized t'"
      using setPixelAt_canvas [of t0 "600 + dx" "600 + dy" "0x14001fcc"]
      by (auto simp: Let_def targetSize_def)
  qed
qed

lemma audio_triangle_total:
  assumes "canvas_sized img"
  shows "\<exists>img'. audio_triangle W img = Inr img' \<and> canvas_sized img'"
  unfolding audio_triangle_def
proof (rule for_loop_preserves [where P = canvas_sized, OF assms])
  fix row t assume t: "canvas_sized t"
  show "\<exists>t'. for_loop (- 5) (tri_half_width W row) (\<lambda>col img'.
         let px = targetSize div 2 + col + 8; py = 600 + row in
         if px \<ge> 1 \<and> px \<le> targetSize \<and> py \<ge> 1 \<and> py \<le> targetSize
         then setPixelAt img' px py 0xffffffff else Inr img') t = Inr t' \<and> canvas_sized t'"
  proof (rule for_loop_preserves [where P = canvas_sized, OF t])
    fix col t0 assume "canvas_sized t0"
    then show "\<exists>t'. (let px = targetSize div 2 + col + 8; py = 600 + row in
         if px \<ge> 1 \<and> px \<le> targetSize \<and> py \<ge> 1 \<and> py \<le> targetSize
         then setPixelAt t0 px py 0xffffffff else Inr t0) = Inr t' \<and> canvas_sized t'"
      using setPixelAt_canvas [of t0 "600 + col + 8" "600 + row" "0xffffffff"]
      by (auto simp: Let_def targetSize_def)
  qed
qed

lemma audio_image_total:
  "\<exists>img. audio_image W seed0 = Inr img \<and> canvas_sized img"
proof -
  have "canvas_sized (fill 0x14001fff (new_Image targetSize targetSize))"
    by (simp add: canvas_sized_def fill_def new_Image_def targetSize_def)
  then have "\<exists>s. for_loop 0 barCount (audio_bar W)
      (sint seed0, fill 0x14001fff (new_Image targetSize targetSize)) = Inr s \<and> canvas_sized (snd s)"
    by (intro for_loop_preserves [where P = "\<lambda>s. canvas_sized (snd s)"] audio_bar_total) simp_all
  then obtain seed img where 1: "for_loop 0 barCount (audio_bar W)
      (sint seed0, fill 0x14001fff (new_Image targetSize targetSize)) = Inr (seed, img)" "canvas_sized img"
    by auto
  obtain img' where 2: "audio_circle img = Inr img'" "canvas_sized img'"
    using audio_circle_total [OF 1(2)] by auto
  show ?thesis
    using 1(1) 2(1) audio_triangle_total [OF 2(2), of W] by (simp add: audio_image_def)
qed

lemma audio_image_cong:
  assumes "bar_height W1 = bar_height W2" and "tri_half_width W1 = tri_half_width W2"
  shows "audio_image W1 = audio_image W2"
proof -
  have bar: "audio_bar W1 = audio_bar W2"
    using assms(1) by (simp add: audio_bar_def fun_eq_iff)
  have tri: "audio_triangle W1 = audio_triangle W2"
    using assms(2) by (simp add: audio_triangle_def)
  show ?thesis
    unfolding audio_image_def bar tri ..
qed

lemma renderAudioPreview_png:
  "audio_image W (audio_seed url) = Inr outputImage \<Longrightarrow>
   map_sum id png (renderAudioPreview W url mimetype stampNumber tr) =
     (case encode_png W (date_now W tr) outputImage of
        Inl e \<Rightarrow> Inl e
      | Inr pngBuffer \<Rightarrow> toBase64 pngBuffer)"
  by (simp add: renderAudioPreview_def split: sum.splits)

lemma toBase64_b64_encode: "toBase64 data = Inr (b64_encode (map unat data))"
proof -
  have "unat b mod 256 = unat b" for b :: byte
    using unsigned_less [of b, where 'a = nat] by simp
  then show ?thesis
    by (simp add: toBase64_def btoa_def comp_def)
qed

text \<open>
  Claim C5, as the code has it. The drawing of the audio visualizer is deterministic and
  total: it never throws, and the 1200x1200 bitmap that it hands to the PNG encoder depends
  on the source URL only through the 32-bit seed computed from its characters. Two calls
  whose URLs give the same seed hand the encoder the same bitmap, whatever the clock, the
  history, the network, the declared type and the stamp number, in any two worlds that agree
  on the two floating-point helpers. The PNG string of each call is the base64 text of what
  the encoder makes of that bitmap at the time of the call; so the two strings are equal
  whenever the encoder gives the same bytes at both times.
\<close>

theorem renderAudioPreview_deterministic:
  assumes "audio_seed url1 = audio_seed url2"
    and "bar_height W1 = bar_height W2" and "tri_half_width W1 = tri_half_width W2"
  shows "\<exists>outputImage.
           width outputImage = 1200 \<and> height outputImage = 1200 \<and>
           audio_image W1 (audio_seed url1) = Inr outputImage \<and>
           audio_image W2 (audio_seed url2) = Inr outputImage \<and>
           map_sum id png (renderAudioPreview W1 url1 mimetype1 stampNumber1 tr1) =
             (case encode_png W1 (date_now W1 tr1) outputImage of
                Inl e \<Rightarrow> Inl e
              | Inr pngBuffer \<Rightarrow> toBase64 pngBuffer) \<and>
           map_sum id png (renderAudioPreview W2 url2 mimetype2 stampNumber2 tr2) =
             (case encode_png W2 (date_now W2 tr2) outputImage of
                Inl e \<Rightarrow> Inl e
              | Inr pngBuffer \<Rightarrow> toBase64 pngBuffer) \<and>
           (encode_png W1 (date_now W1 tr1) outputImage = encode_png W2 (date_now W2 tr2) outputImage \<longrightarrow>
              map_sum id png (renderAudioPreview W1 url1 mimetype1 stampNumber1 tr1) =
              map_sum id png (renderAudioPreview W2 url2 mimetype2 stampNumber2 tr2))"
proof -
  obtain outputImage where img: "audio_image W1 (audio_seed url1) = Inr outputImage"
      "canvas_sized outputImage"
    using audio_image_total by blast
  have img2: "audio_image W2 (audio_seed url2) = Inr outputImage"
    using img(1) audio_image_cong [OF assms(2,3)] assms(1) by simp
  note p1 = renderAudioPreview_png [OF img(1), of mimetype1 stampNumber1 tr1]
  note p2 = renderAudioPreview_png [OF img2, of mimetype2 stampNumber2 tr2]
  show ?thesis
    using img img2 p1 p2 by (auto simp: canvas_sized_def)
qed

text \<open>
  The theorem at two URLs with the same seed, in two worlds with different networks, at
  different times: the two PNG strings are the encodings of one bitmap, stamped 0 and 4.
\<close>

theorem renderAudioPreview_deterministic_witness:
  "audio_seed ''Aa'' = audio_seed ''BB'' \<and>
   bar_height (sample_world (\<lambda>_ _. Response 503 (Inr []))) = bar_height (sample_world (\<lambda>_ _. Response 404 (Inr []))) \<and>
   tri_half_width (sample_world (\<lambda>_ _. Response 503 (Inr []))) = tri_half_width (sample_world (\<lambda>_ _. Response 404 (Inr []))) \<and>
   (\<exists>outputImage :: image.
      width outputImage = 1200 \<and> height outputImage = 1200 \<and>
      map_sum id png (renderAudioPreview (sample_world (\<lambda>_ _. Response 503 (Inr []))) ''Aa'' ''audio/mpeg'' (Some 7) [])
        = toBase64 [0, ucast (bitmap outputImage (600, 600))] \<and>
      map_sum id png (renderAudioPreview (sample_world (\<lambda>_ _. Response 404 (Inr []))) ''BB'' ''audio/wav'' None [Sleep 2000])
        = toBase64 [4, ucast (bitmap outputImage (600, 600))])"
proof -
  have s: "audio_seed ''Aa'' = audio_seed ''BB''"
    by (simp add: audio_seed_def)
  have h: "bar_height (sample_world (\<lambda>_ _. Response 503 (Inr []))) = bar_height (sample_world (\<lambda>_ _. Response 404 (Inr [])))"
    "tri_half_width (sample_world (\<lambda>_ _. Response 503 (Inr []))) = tri_half_width (sample_world (\<lambda>_ _. Response 404 (Inr [])))"
    by (simp_all add: sample_world_def)
  obtain outputImage where r: "width outputImage = 1200" "height outputImage = 1200"
    "map_sum id png (renderAudioPreview (sample_world (\<lambda>_ _. Response 503 (Inr []))) ''Aa'' ''audio/mpeg'' (Some 7) []) =
       (case encode_png (sample_world (\<lambda>_ _. Response 503 (Inr [])))
               (date_now (sample_world (\<lambda>_ _. Response 503 (Inr []))) []) outputImage of
          Inl e \<Rightarrow> Inl e
        | Inr pngBuffer \<Rightarrow> toBase64 pngBuffer)"
    "map_sum id png (renderAudioPreview (sample_world (\<lambda>_ _. Response 404 (Inr []))) ''BB'' ''audio/wav'' None [Sleep 2000]) =
       (case encode_png (sample_world (\<lambda>_ _. Response 404 (Inr [])))
               (date_now (sample_world (\<lambda>_ _. Response 404 (Inr []))) [Sleep 2000]) outputImage of
          Inl e \<Rightarrow> Inl e
        | Inr pngBuffer \<Rightarrow> toBase64 pngBuffer)"
    using renderAudioPreview_deterministic [OF s h, of "''audio/mpeg''" "Some 7" "[]" "''audio/wav''" None "[Sleep 2000]"]
    by blast
  have e1: "map_sum id png (renderAudioPreview (sample_world (\<lambda>_ _. Response 503 (Inr []))) ''Aa'' ''audio/mpeg'' (Some 7) [])
        = toBase64 [0, ucast (bitmap outputImage (600, 600))]"
    unfolding r(3) by (simp add: sample_world_def)
  have e2: "map_sum id png (renderAudioPreview (sample_world (\<lambda>_ _. Response 404 (Inr []))) ''BB'' ''audio/wav'' None [Sleep 2000])
        = toBase64 [4, ucast (bitmap outputImage (600, 600))]"
    unfolding r(4) by (simp add: sample_world_def)
  have "\<exists>outputImage :: image.
      width outputImage = 1200 \<and> height outputImage = 1200 \<and>
      map_sum id png (renderAudioPreview (sample_world (\<lambda>_ _. Response 503 (Inr []))) ''Aa'' ''audio/mpeg'' (Some 7) [])
        = toBase64 [0, ucast (bitmap outputImage (600, 600))] \<and>
      map_sum id png (renderAudioPreview (sample_world (\<lambda>_ _. Response 404 (Inr []))) ''BB'' ''audio/wav'' None [Sleep 2000])
        = toBase64 [4, ucast (bitmap outputImage (600, 600))]"
    by (rule exI [of _ outputImage]) (simp add: r(1,2) e1 e2)
  then show ?thesis
    using s h by blast
qed

text \<open>
  The claim as the spec words it fails where the encoder stamps the file with the time of
  the call: two calls for the same identifier, the second one event later, both return a
  preview, and the two PNG strings differ from their first character on.
\<close>

theorem audio_png_changes_with_clock_counterexample:
  "\<not> isl (fst (renderPreview audio_world ''a'' [])) \<and>
   projr (fst (renderPreview audio_world ''a'' [])) \<noteq> None \<and>
   \<not> isl (fst (renderPreview audio_world ''a'' [Sleep 2000])) \<and>
   projr (fst (renderPreview audio_world ''a'' [Sleep 2000])) \<noteq> None \<and>
   take 1 (png (the (projr (fst (renderPreview audio_world ''a'' []))))) = ''B'' \<and>
   take 1 (png (the (projr (fst (renderPreview audio_world ''a'' [Sleep 2000]))))) = ''C'' \<and>
   png (the (projr (fst (renderPreview audio_world ''a'' [])))) \<noteq>
   png (the (projr (fst (renderPreview audio_world ''a'' [Sleep 2000]))))"
proof -
  let ?url = "''https://stampchain.io/stamps/a.mp3''"
  obtain outputImage where img: "audio_image audio_world (audio_seed ?url) = Inr outputImage"
    using audio_image_total by blast
  have w: "getSpecificStamp audio_world tr ''a'' =
      Inr (Some \<lparr>stamp_url = Some ?url, stamp_mimetype = Some ''audio/mpeg'', stamp_no = Some 1\<rparr>)"
    "date_now audio_world tr = 4 * int (length tr)"
    "encode_png audio_world now outputImage = Inr [of_int now, ucast (bitmap outputImage (600, 600))]" for tr now
    by (simp_all add: audio_world_def stamp_world_def serving_def sample_world_def)
  have r: "renderPreview audio_world ''a'' tr =
      (case renderAudioPreview audio_world ?url ''audio/mpeg'' (Some 1) (tr @ [Resolve ''a'']) of
         Inl e \<Rightarrow> (Inl e, tr @ [Resolve ''a''])
       | Inr result \<Rightarrow> (Inr (Some result), tr @ [Resolve ''a'']))" for tr
    by (simp add: renderPreview_def w(1) startsWith_def Let_def)
  have a: "renderAudioPreview audio_world ?url ''audio/mpeg'' (Some 1) tr =
      Inr \<lparr>png = b64_encode (map unat [of_int (4 * int (length tr)), ucast (bitmap outputImage (600, 600)) :: byte]),
           meta = [''X-Stamp-Number'' \<mapsto> stamp_number_header (Some 1),
                   ''X-Original-Type'' \<mapsto> ''audio/mpeg'',
                   ''X-Conversion-Method'' \<mapsto> ''imagescript-waveform'',
                   ''X-Dimensions'' \<mapsto> ''1200x1200'']\<rparr>" for tr
    by (simp add: renderAudioPreview_def img w toBase64_b64_encode)
  obtain first where 1: "renderAudioPreview audio_world ?url ''audio/mpeg'' (Some 1) ([] @ [Resolve ''a'']) = Inr first"
    "png first = b64_encode [4, unat (ucast (bitmap outputImage (600, 600)) :: byte)]"
    unfolding a by simp
  obtain second where 2: "renderAudioPreview audio_world ?url ''audio/mpeg'' (Some 1) ([Sleep 2000] @ [Resolve ''a'']) = Inr second"
    "png second = b64_encode [8, unat (ucast (bitmap outputImage (600, 600)) :: byte)]"
    unfolding a by simp
  have c: "take 1 (png first) = ''B''" "take 1 (png second) = ''C''"
    unfolding 1(2) 2(2) by (simp_all add: b64_char_def b64_alphabet_def)
  then have "png first \<noteq> png second"
    by auto
  then show ?thesis
    using c r [of "[]"] r [of "[Sleep 2000]"] 1(1) 2(1) by simp
qed

subsection \<open>Embedded texts and the routing of SVG\<close>

lemma u16_inj: "inj (\<lambda>c :: char. of_nat (of_char c) :: code_unit)"
proof (rule injI)
  fix c d :: char
  assume "(of_nat (of_char c) :: code_unit) = of_nat (of_char d)"
  then have "unat (of_nat (of_char c) :: code_unit) = unat (of_nat (of_char d) :: code_unit)"
    by simp
  moreover have "(of_char e :: nat) < 65536" for e :: char
    using nat_of_char_less_256 [of e] by linarith
  ultimately have "(of_char c :: nat) = of_char d"
    by (simp add: unat_of_nat)
  then show "c = d" by simp
qed

lemma u16_eq_iff [simp]: "u16 s = u16 p \<longleftrightarrow> s = p"
  unfolding u16_def by (rule inj_map_eq_map [OF u16_inj])

lemma u16_simps [simp]:
  "u16 [] = []" "u16 (s @ p) = u16 s @ u16 p" "length (u16 s) = length s"
  "take n (u16 s) = u16 (take n s)"
  by (simp_all add: u16_def take_map)

lemma startsWith_u16 [simp]: "startsWith (u16 s) (u16 p) \<longleftrightarrow> startsWith s p"
  by (simp add: startsWith_def)

lemma u16_Cons: "u16 (c # s) = of_nat (of_char c) # u16 s"
  by (simp add: u16_def)

lemma js_includes_u16 [simp]: "js_includes (u16 s) (u16 p) \<longleftrightarrow> js_includes s p"
proof (induction s)
  case Nil
  show ?case using u16_eq_iff [of "[]" p] by (simp del: u16_eq_iff) auto
next
  case (Cons c s)
  have "startsWith (of_nat (of_char c) # u16 s) (u16 p) \<longleftrightarrow> startsWith (c # s) p"
    using startsWith_u16 [of "c # s" p] by (simp add: u16_Cons)
  then show ?case using Cons by (simp add: u16_Cons)
qed

lemma utf8_decode_ascii:
  "is_ascii s \<Longrightarrow> utf8_decode 0 0 0x80 0xBF (bytes_of s) = map of_char s"
proof (induction s)
  case Nil
  then show ?case by (simp add: bytes_of_def)
next
  case (Cons c s)
  then have c: "(of_char c :: nat) < 128" and s: "is_ascii s"
    by (simp_all add: is_ascii_def)
  have i: "(of_char c :: int) = int (of_char c)"
    by (simp add: of_nat_of_char)
  have "unat (of_nat (of_char c) :: 8 word) = of_char c"
    using nat_of_char_less_256 [of c] by (simp add: unat_of_nat)
  then have "uint (of_nat (of_char c) :: 8 word) = of_char c"
    unfolding i by (simp add: uint_nat)
  moreover have "(of_char c :: int) \<le> 127"
    unfolding i using c by linarith
  ultimately show ?case
    using Cons.IH [OF s] by (simp add: bytes_of_def Let_def)
qed

lemma strip_bom_ascii: "is_ascii s \<Longrightarrow> strip_bom (bytes_of s) = bytes_of s"
proof -
  assume a: "is_ascii s"
  have "(of_nat (of_char c) :: 8 word) \<noteq> 0xEF" if "(of_char c :: nat) < 128" for c :: char
  proof
    assume "(of_nat (of_char c) :: 8 word) = 0xEF"
    then have "unat (of_nat (of_char c) :: 8 word) = 239" by simp
    then show False using that by (simp add: unat_of_nat)
  qed
  then show ?thesis
    using a by (auto simp: strip_bom_def bytes_of_def is_ascii_def split: list.splits)
qed

lemma text_of_bytes_of [simp]: "is_ascii s \<Longrightarrow> text_of (bytes_of s) = u16 s"
proof -
  assume a: "is_ascii s"
  have "concat (map utf16_units (map of_char s)) = u16 s" if "is_ascii s" for s
    using that
  proof (induction s)
    case Nil
    show ?case by simp
  next
    case (Cons c s)
    then have c: "(of_char c :: nat) < 128" and s: "is_ascii s"
      by (simp_all add: is_ascii_def)
    have i: "(of_char c :: int) = int (of_char c)"
      by (simp add: of_nat_of_char)
    have "utf16_units (of_char c) = [of_nat (of_char c)]"
      unfolding i using c by (simp add: utf16_units_def)
    then show ?case using Cons.IH [OF s] by (simp add: u16_Cons)
  qed
  then show ?thesis
    using a by (simp add: text_of_def strip_bom_ascii utf8_decode_ascii)
qed

lemma renderWithCloudflare_events:
  "\<exists>r new. renderWithCloudflare W params tr = (r, tr @ new) \<and> (\<forall>e\<in>set new. is_browser_event e) \<and>
     (cf_configured W \<longrightarrow>
        new \<noteq> [] \<and> hd new = Attempt params (case req_timeout params of None \<Rightarrow> 30000 | Some t \<Rightarrow> t))"
proof (cases "cf_configured W")
  case False
  then show ?thesis by (simp add: renderWithCloudflare_def)
next
  case True
  define ft where "ft = (case req_timeout params of None \<Rightarrow> 30000 | Some t \<Rightarrow> t)"
  obtain r tr' where c: "cf_loop W params ft 0 tr = (r, tr')" by (cases "cf_loop W params ft 0 tr")
  from cf_loop_0 [of W params ft tr] c
  consider "tr' = tr @ [Attempt params ft]"
    | "tr' = tr @ [Attempt params ft, Sleep 2000, Attempt params ft]"
    | "tr' = tr @ [Attempt params ft, Sleep 2000, Attempt params ft, Sleep 4000, Attempt params ft]"
    by auto
  then show ?thesis
    using True c by cases (auto simp: renderWithCloudflare_def ft_def [symmetric] is_browser_event_def)
qed

lemma renderSvgWithChrome_events:
  "\<exists>r new. renderSvgWithChrome W url mimetype stampNumber tr = (r, tr @ new) \<and>
     (\<forall>e\<in>set new. is_browser_event e) \<and>
     (cf_configured W \<longrightarrow> new \<noteq> [] \<and>
        hd new = Attempt \<lparr>req_url = Some (u16 url), req_html = None, req_viewport = full_viewport,
                          req_delay = None, req_timeout = None\<rparr> 30000)"
proof -
  let ?p = "\<lparr>req_url = Some (u16 url), req_html = None, req_viewport = full_viewport,
             req_delay = None, req_timeout = None\<rparr>"
  obtain r new where c: "renderWithCloudflare W ?p tr = (r, tr @ new)" "\<forall>e\<in>set new. is_browser_event e"
    "cf_configured W \<longrightarrow> new \<noteq> [] \<and> hd new = Attempt ?p 30000"
    using renderWithCloudflare_events [of W ?p tr] by auto
  then show ?thesis
    by (auto simp: renderSvgWithChrome_def split: option.splits sum.splits)
qed

text \<open>
  Claim C4. An SVG stamp whose fetched content contains \<^verbatim>\<open><foreignObject\<close> is handed to
  the full-browser path: the orchestrator returns what \<open>renderSvgWithChrome\<close> returns, and
  after the lookup and the fetch the trace holds only requests to the rendering worker and
  back-off sleeps, never a run of the vector rasterizer. With a configured worker the first
  of them is the request for the content URL.
\<close>

theorem foreignObject_svg_goes_to_browser:
  assumes "getSpecificStamp W tr ident = Inr (Some stampData)"
    and "stamp_url stampData = Some url" and "url \<noteq> []"
    and "stamp_mimetype stampData = Some ''image/svg+xml''"
    and "fetch_content W (tr @ [Resolve ident]) url = Response st (Inr bytes)"
    and "response_ok st"
    and "js_includes (text_of bytes) (u16 ''<foreignObject'')"
  shows "renderPreview W ident tr =
           renderSvgWithChrome W url ''image/svg+xml'' (stamp_no stampData)
             (tr @ [Resolve ident, FetchContent url]) \<and>
         (\<exists>new. snd (renderPreview W ident tr) = tr @ [Resolve ident, FetchContent url] @ new \<and>
            (\<forall>e\<in>set new. is_browser_event e \<and> \<not> is_rasterize e) \<and>
            (cf_configured W \<longrightarrow> new \<noteq> [] \<and>
               hd new = Attempt \<lparr>req_url = Some (u16 url), req_html = None, req_viewport = full_viewport,
                                 req_delay = None, req_timeout = None\<rparr> 30000))"
proof -
  have 1: "renderPreview W ident tr =
      renderSvgWithChrome W url ''image/svg+xml'' (stamp_no stampData) (tr @ [Resolve ident, FetchContent url])"
    using assms
    by (simp add: renderPreview_def renderSvgPreview_def Let_def startsWith_def)
  obtain r new where c: "renderSvgWithChrome W url ''image/svg+xml'' (stamp_no stampData)
        (tr @ [Resolve ident, FetchContent url]) = (r, (tr @ [Resolve ident, FetchContent url]) @ new)"
      "\<forall>e\<in>set new. is_browser_event e"
      "cf_configured W \<longrightarrow> new \<noteq> [] \<and>
        hd new = Attempt \<lparr>req_url = Some (u16 url), req_html = None, req_viewport = full_viewport,
                          req_delay = None, req_timeout = None\<rparr> 30000"
    using renderSvgWithChrome_events by blast
  have "\<not> is_rasterize e" if "is_browser_event e" for e
    using that by (cases e) (simp_all add: is_browser_event_def is_rasterize_def)
  then show ?thesis
    using 1 c by auto
qed

text \<open>The theorem for a stamp whose document is \<^verbatim>\<open><svg><foreignObject/></svg>\<close>.\<close>

theorem foreignObject_svg_goes_to_browser_witness:
  "getSpecificStamp (stamp_world ''<svg><foreignObject/></svg>'' ''https://x/stamps/a.svg'' ''image/svg+xml'') [] ''a''
     = Inr (Some \<lparr>stamp_url = Some ''https://x/stamps/a.svg'', stamp_mimetype = Some ''image/svg+xml'', stamp_no = Some 1\<rparr>) \<and>
   fetch_content (stamp_world ''<svg><foreignObject/></svg>'' ''https://x/stamps/a.svg'' ''image/svg+xml'')
     ([] @ [Resolve ''a'']) ''https://x/stamps/a.svg'' = Response 200 (Inr (bytes_of ''<svg><foreignObject/></svg>'')) \<and>
   response_ok 200 \<and>
   js_includes (text_of (bytes_of ''<svg><foreignObject/></svg>'')) (u16 ''<foreignObject'') \<and>
   (\<exists>new. snd (renderPreview (stamp_world ''<svg><foreignObject/></svg>'' ''https://x/stamps/a.svg'' ''image/svg+xml'') ''a'' [])
        = [] @ [Resolve ''a'', FetchContent ''https://x/stamps/a.svg''] @ new \<and>
      (\<forall>e\<in>set new. is_browser_event e \<and> \<not> is_rasterize e) \<and>
      new \<noteq> [] \<and>
      hd new = Attempt \<lparr>req_url = Some (u16 ''https://x/stamps/a.svg''), req_html = None, req_viewport = full_viewport,
                        req_delay = None, req_timeout = None\<rparr> 30000)"
proof -
  let ?W = "stamp_world ''<svg><foreignObject/></svg>'' ''https://x/stamps/a.svg'' ''image/svg+xml''"
  have h: "getSpecificStamp ?W [] ''a''
       = Inr (Some \<lparr>stamp_url = Some ''https://x/stamps/a.svg'', stamp_mimetype = Some ''image/svg+xml'', stamp_no = Some 1\<rparr>)"
    "fetch_content ?W ([] @ [Resolve ''a'']) ''https://x/stamps/a.svg'' = Response 200 (Inr (bytes_of ''<svg><foreignObject/></svg>''))"
    "response_ok 200"
    "js_includes (text_of (bytes_of ''<svg><foreignObject/></svg>'')) (u16 ''<foreignObject'')"
    "cf_configured ?W"
    by (simp_all add: stamp_world_def serving_def sample_world_def response_ok_def startsWith_def
        is_ascii_def)
  have r: "\<exists>new. snd (renderPreview ?W ''a'' [])
        = [] @ [Resolve ''a'', FetchContent ''https://x/stamps/a.svg''] @ new \<and>
      (\<forall>e\<in>set new. is_browser_event e \<and> \<not> is_rasterize e) \<and>
      new \<noteq> [] \<and>
      hd new = Attempt \<lparr>req_url = Some (u16 ''https://x/stamps/a.svg''), req_html = None, req_viewport = full_viewport,
                        req_delay = None, req_timeout = None\<rparr> 30000"
    using foreignObject_svg_goes_to_browser [OF h(1) _ _ _ h(2) h(3) h(4), simplified stamp_data.simps]
      h(5) by blast
  show ?thesis
    using h(1-4) r by blast
qed

subsection \<open>The fall-through of raster images to the browser\<close>

lemma imageHtml_text:
  "imageHtml url =
     ''<!DOCTYPE html>\<newline><html><head><style>\<newline>  * { margin: 0; padding: 0; }\<newline>  body { background: transparent; display: flex; align-items: center; justify-content: center; width: 1200px; height: 1200px; overflow: hidden; }\<newline>  img { max-width: 100%; max-height: 100%; object-fit: contain; image-rendering: pixelated; }\<newline></style></head><body>\<newline><img src=\"'' @
     url @ ''\" />\<newline></body></html>''"
  by (simp add: imageHtml_def imageHtml_head_def imageHtml_tail_def)

lemma raster_try_decode_error:
  assumes "(mimetype = ''image/gif'' \<and> decode_gif W imageBytes = Inl decodeError) \<or>
           (mimetype \<noteq> ''image/gif'' \<and> decode_image W imageBytes = Inl decodeError)"
  shows "raster_try W now imageBytes mimetype stampNumber = Inl decodeError"
  using assms by (auto simp: raster_try_def split: if_splits sum.splits)

text \<open>
  Claim C7. For a raster-typed stamp (type \<^verbatim>\<open>image/...\<close> other than SVG) whose bytes the
  pixel decoder rejects, the orchestrator does not fail: it returns what
  \<open>renderImageWithChrome\<close> returns. After the lookup and the fetch, the trace holds only
  requests to the rendering worker and back-off sleeps; with a configured worker the first
  of them carries, as inline HTML, the document written out below: a 1200x1200 flex body
  that centers its content on both axes, with an \<^verbatim>\<open>img\<close> element for the raw content
  URL that is scaled to fit, on a 1200x1200 viewport with a delay of 2000 ms and the default
  timeout. The overall result is \<open>null\<close> exactly when that call of the worker gives no
  screenshot; a screenshot is centered on the canvas and returned (or the error of that
  step is thrown).
\<close>

theorem raster_decode_failure_falls_through:
  assumes "getSpecificStamp W tr ident = Inr (Some stampData)"
    and "stamp_url stampData = Some url" and "url \<noteq> []"
    and "stamp_mimetype stampData = Some mimetype"
    and "startsWith mimetype ''image/''" and "mimetype \<noteq> ''image/svg+xml''"
    and "fetch_content W (tr @ [Resolve ident]) url = Response st (Inr imageBytes)"
    and "response_ok st"
    and "(mimetype = ''image/gif'' \<and> decode_gif W imageBytes = Inl decodeError) \<or>
         (mimetype \<noteq> ''image/gif'' \<and> decode_image W imageBytes = Inl decodeError)"
  shows "renderPreview W ident tr =
           renderImageWithChrome W url mimetype (stamp_no stampData)
             (tr @ [Resolve ident, FetchContent url]) \<and>
         (\<exists>screenshot new.
            renderWithCloudflare W
              \<lparr>req_url = None,
               req_html = Some (u16 (
                 ''<!DOCTYPE html>\<newline><html><head><style>\<newline>  * { margin: 0; padding: 0; }\<newline>  body { background: transparent; display: flex; align-items: center; justify-content: center; width: 1200px; height: 1200px; overflow: hidden; }\<newline>  img { max-width: 100%; max-height: 100%; object-fit: contain; image-rendering: pixelated; }\<newline></style></head><body>\<newline><img src=\"'' @
                 url @ ''\" />\<newline></body></html>'')),
               req_viewport = Some (1200, 1200), req_delay = Some 2000, req_timeout = None\<rparr>
              (tr @ [Resolve ident, FetchContent url])
              = (screenshot, tr @ [Resolve ident, FetchContent url] @ new) \<and>
            snd (renderPreview W ident tr) = tr @ [Resolve ident, FetchContent url] @ new \<and>
            (\<forall>e\<in>set new. is_browser_event e) \<and>
            (cf_configured W \<longrightarrow> new \<noteq> [] \<and>
               hd new = Attempt
                 \<lparr>req_url = None,
                  req_html = Some (u16 (
                    ''<!DOCTYPE html>\<newline><html><head><style>\<newline>  * { margin: 0; padding: 0; }\<newline>  body { background: transparent; display: flex; align-items: center; justify-content: center; width: 1200px; height: 1200px; overflow: hidden; }\<newline>  img { max-width: 100%; max-height: 100%; object-fit: contain; image-rendering: pixelated; }\<newline></style></head><body>\<newline><img src=\"'' @
                    url @ ''\" />\<newline></body></html>'')),
                  req_viewport = Some (1200, 1200), req_delay = Some 2000, req_timeout = None\<rparr>
                 30000) \<and>
            (fst (renderPreview W ident tr) = Inr None \<longleftrightarrow> screenshot = None) \<and>
            (\<forall>cfBuffer. screenshot = Some cfBuffer \<longrightarrow>
               fst (renderPreview W ident tr) =
                 (case centerOnCanvas W (date_now W (tr @ [Resolve ident, FetchContent url] @ new))
                         cfBuffer (stamp_no stampData) mimetype ''cloudflare-browser'' of
                    Inl e \<Rightarrow> Inl e
                  | Inr result \<Rightarrow>
                      Inr (Some (result\<lparr>meta := (meta result)(''X-Rendering-Engine'' \<mapsto> ''cloudflare-worker'')\<rparr>)))))"
proof -
  let ?tr2 = "tr @ [Resolve ident, FetchContent url]"
  let ?p = "\<lparr>req_url = None, req_html = Some (u16 (imageHtml url)),
             req_viewport = Some (1200, 1200), req_delay = Some 2000, req_timeout = None\<rparr>"
  have "renderRasterPreview W url mimetype (stamp_no stampData) (tr @ [Resolve ident])
      = (Inr None, ?tr2)"
    using assms(7,8) raster_try_decode_error [OF assms(9)] by (simp add: renderRasterPreview_def)
  then have 1: "renderPreview W ident tr =
      renderImageWithChrome W url mimetype (stamp_no stampData) ?tr2"
    using assms(1-6) by (simp add: renderPreview_def)
  obtain screenshot new where c: "renderWithCloudflare W ?p ?tr2 = (screenshot, ?tr2 @ new)"
      "\<forall>e\<in>set new. is_browser_event e"
      "cf_configured W \<longrightarrow> new \<noteq> [] \<and> hd new = Attempt ?p 30000"
    using renderWithCloudflare_events [of W ?p ?tr2] by auto
  have 2: "renderImageWithChrome W url mimetype (stamp_no stampData) ?tr2 =
      (case screenshot of
         None \<Rightarrow> (Inr None, ?tr2 @ new)
       | Some cfBuffer \<Rightarrow>
           (case centerOnCanvas W (date_now W (?tr2 @ new)) cfBuffer (stamp_no stampData) mimetype ''cloudflare-browser'' of
              Inl e \<Rightarrow> (Inl e, ?tr2 @ new)
            | Inr result \<Rightarrow>
                (Inr (Some (result\<lparr>meta := (meta result)(''X-Rendering-Engine'' \<mapsto> ''cloudflare-worker'')\<rparr>)), ?tr2 @ new)))"
    using c(1) by (simp add: renderImageWithChrome_def full_viewport_def split: option.splits sum.splits)
  have 3: "snd (renderPreview W ident tr) = ?tr2 @ new"
    unfolding 1 2 by (simp split: option.splits sum.splits)
  have 4: "fst (renderPreview W ident tr) = Inr None \<longleftrightarrow> screenshot = None"
    unfolding 1 2 by (simp split: option.splits sum.splits)
  have 5: "\<forall>cfBuffer. screenshot = Some cfBuffer \<longrightarrow>
      fst (renderPreview W ident tr) =
        (case centerOnCanvas W (date_now W (?tr2 @ new)) cfBuffer (stamp_no stampData) mimetype ''cloudflare-browser'' of
           Inl e \<Rightarrow> Inl e
         | Inr result \<Rightarrow>
             Inr (Some (result\<lparr>meta := (meta result)(''X-Rendering-Engine'' \<mapsto> ''cloudflare-worker'')\<rparr>)))"
    unfolding 1 2 by (simp split: option.splits sum.splits)
  have "\<exists>screenshot new.
      renderWithCloudflare W ?p ?tr2 = (screenshot, ?tr2 @ new) \<and>
      snd (renderPreview W ident tr) = ?tr2 @ new \<and>
      (\<forall>e\<in>set new. is_browser_event e) \<and>
      (cf_configured W \<longrightarrow> new \<noteq> [] \<and> hd new = Attempt ?p 30000) \<and>
      (fst (renderPreview W ident tr) = Inr None \<longleftrightarrow> screenshot = None) \<and>
      (\<forall>cfBuffer. screenshot = Some cfBuffer \<longrightarrow>
         fst (renderPreview W ident tr) =
           (case centerOnCanvas W (date_now W (?tr2 @ new)) cfBuffer (stamp_no stampData) mimetype ''cloudflare-browser'' of
              Inl e \<Rightarrow> Inl e
            | Inr result \<Rightarrow>
                Inr (Some (result\<lparr>meta := (meta result)(''X-Rendering-Engine'' \<mapsto> ''cloudflare-worker'')\<rparr>))))"
    using c 3 4 5 by blast
  then show ?thesis
    using 1 unfolding imageHtml_text by simp
qed

text \<open>The theorem for a WebP stamp that the decoder does not know.\<close>

theorem raster_decode_failure_falls_through_witness:
  "getSpecificStamp (stamp_world ''RIFF'' ''https://x/stamps/a.webp'' ''image/webp'') [] ''a''
     = Inr (Some \<lparr>stamp_url = Some ''https://x/stamps/a.webp'', stamp_mimetype = Some ''image/webp'', stamp_no = Some 1\<rparr>) \<and>
   startsWith ''image/webp'' ''image/'' \<and> ''image/webp'' \<noteq> ''image/svg+xml'' \<and>
   fetch_content (stamp_world ''RIFF'' ''https://x/stamps/a.webp'' ''image/webp'')
     ([] @ [Resolve ''a'']) ''https://x/stamps/a.webp'' = Response 200 (Inr (bytes_of ''RIFF'')) \<and>
   response_ok 200 \<and>
   ''image/webp'' \<noteq> ''image/gif'' \<and>
   decode_image (stamp_world ''RIFF'' ''https://x/stamps/a.webp'' ''image/webp'') (bytes_of ''RIFF'')
     = Inl (JsError ''Error'' ''Unknown file signature'') \<and>
   renderPreview (stamp_world ''RIFF'' ''https://x/stamps/a.webp'' ''image/webp'') ''a'' [] =
     renderImageWithChrome (stamp_world ''RIFF'' ''https://x/stamps/a.webp'' ''image/webp'')
       ''https://x/stamps/a.webp'' ''image/webp'' (Some 1)
       ([] @ [Resolve ''a'', FetchContent ''https://x/stamps/a.webp'']) \<and>
   (\<exists>screenshot new.
      snd (renderPreview (stamp_world ''RIFF'' ''https://x/stamps/a.webp'' ''image/webp'') ''a'' [])
        = [] @ [Resolve ''a'', FetchContent ''https://x/stamps/a.webp''] @ new \<and>
      new \<noteq> [] \<and>
      hd new = Attempt
        \<lparr>req_url = None,
         req_html = Some (u16 (
           ''<!DOCTYPE html>\<newline><html><head><style>\<newline>  * { margin: 0; padding: 0; }\<newline>  body { background: transparent; display: flex; align-items: center; justify-content: center; width: 1200px; height: 1200px; overflow: hidden; }\<newline>  img { max-width: 100%; max-height: 100%; object-fit: contain; image-rendering: pixelated; }\<newline></style></head><body>\<newline><img src=\"'' @
           ''https://x/stamps/a.webp'' @ ''\" />\<newline></body></html>'')),
         req_viewport = Some (1200, 1200), req_delay = Some 2000, req_timeout = None\<rparr>
        30000 \<and>
      (fst (renderPreview (stamp_world ''RIFF'' ''https://x/stamps/a.webp'' ''image/webp'') ''a'' []) = Inr None
         \<longleftrightarrow> screenshot = None))"
proof -
  let ?W = "stamp_world ''RIFF'' ''https://x/stamps/a.webp'' ''image/webp''"
  have h: "getSpecificStamp ?W [] ''a''
       = Inr (Some \<lparr>stamp_url = Some ''https://x/stamps/a.webp'', stamp_mimetype = Some ''image/webp'', stamp_no = Some 1\<rparr>)"
    "startsWith ''image/webp'' ''image/''" "''image/webp'' \<noteq> ''image/svg+xml''"
    "fetch_content ?W ([] @ [Resolve ''a'']) ''https://x/stamps/a.webp'' = Response 200 (Inr (bytes_of ''RIFF''))"
    "response_ok 200"
    "''image/webp'' \<noteq> ''image/gif''"
    "decode_image ?W (bytes_of ''RIFF'') = Inl (JsError ''Error'' ''Unknown file signature'')"
    "cf_configured ?W"
    by (simp_all add: stamp_world_def serving_def sample_world_def response_ok_def startsWith_def)
  have d: "(''image/webp'' = ''image/gif'' \<and> decode_gif ?W (bytes_of ''RIFF'') = Inl (JsError ''Error'' ''Unknown file signature'')) \<or>
         (''image/webp'' \<noteq> ''image/gif'' \<and> decode_image ?W (bytes_of ''RIFF'') = Inl (JsError ''Error'' ''Unknown file signature''))"
    using h(6,7) by blast
  note r = raster_decode_failure_falls_through [OF h(1) _ _ _ h(2) h(3) h(4) h(5) d, simplified stamp_data.simps]
  have r1: "renderPreview ?W ''a'' [] =
     renderImageWithChrome ?W ''https://x/stamps/a.webp'' ''image/webp'' (Some 1)
       ([] @ [Resolve ''a'', FetchContent ''https://x/stamps/a.webp''])"
    using r by blast
  have r2: "\<exists>screenshot new.
      snd (renderPreview ?W ''a'' [])
        = [] @ [Resolve ''a'', FetchContent ''https://x/stamps/a.webp''] @ new \<and>
      new \<noteq> [] \<and>
      hd new = Attempt
        \<lparr>req_url = None,
         req_html = Some (u16 (
           ''<!DOCTYPE html>\<newline><html><head><style>\<newline>  * { margin: 0; padding: 0; }\<newline>  body { background: transparent; display: flex; align-items: center; justify-content: center; width: 1200px; height: 1200px; overflow: hidden; }\<newline>  img { max-width: 100%; max-height: 100%; object-fit: contain; image-rendering: pixelated; }\<newline></style></head><body>\<newline><img src=\"'' @
           ''https://x/stamps/a.webp'' @ ''\" />\<newline></body></html>'')),
         req_viewport = Some (1200, 1200), req_delay = Some 2000, req_timeout = None\<rparr>
        30000 \<and>
      (fst (renderPreview ?W ''a'' []) = Inr None \<longleftrightarrow> screenshot = None)"
    using r h(8) by blast
  show ?thesis
    using h(1-7) r1 r2 by blast
qed

subsection \<open>The decoded text\<close>

lemma utf16_units_length: "length (utf16_units cp) \<le> 2"
  by (simp add: utf16_units_def)




lemma text_of_examples:
  "text_of [0x41, 0xA0, 0x3D] = [0x41, 0xFFFD, 0x3D]"
  "text_of [0x41, 0xC2, 0xA0, 0x3D] = [0x41, 0xA0, 0x3D]"
  "text_of [0xEF, 0xBB, 0xBF, 0xE2, 0x82, 0xAC] = [0x20AC]"
  "text_of [0xF0, 0x9F, 0x98, 0x80] = [0xD83D, 0xDE00]"
  "text_of [0xE0, 0x80, 0x41] = [0xFFFD, 0xFFFD, 0x41]"
  by (simp_all add: text_of_def strip_bom_def utf16_units_def)

subsection \<open>HTML: classification, timing and the simple iframe wrapper\<close>

lemma renderHtmlPreview_trace:
  assumes "cf_configured W" and "fetch_content W tr url = Response st (Inr bytes)" and "response_ok st"
  shows "\<exists>r tr2 rest.
           renderWithCloudflare W (html_first_request W (text_of bytes) url) (tr @ [FetchContent url]) = (r, tr2) \<and>
           snd (renderHtmlPreview W url mimetype stampNumber tr) = tr2 @ rest \<and>
           (isRecursive (text_of bytes) \<longrightarrow> rest = [])"
proof -
  let ?raw = "text_of bytes"
  obtain r tr2 where c1: "renderWithCloudflare W (html_first_request W ?raw url) (tr @ [FetchContent url]) = (r, tr2)"
    by (cases "renderWithCloudflare W (html_first_request W ?raw url) (tr @ [FetchContent url])")
  obtain r' new where c2: "renderWithCloudflare W (html_retry_request url) tr2 = (r', tr2 @ new)"
    using renderWithCloudflare_events [of W "html_retry_request url" tr2] by blast
  show ?thesis
  proof (cases r)
    case None
    then have "snd (renderHtmlPreview W url mimetype stampNumber tr) = tr2"
      using assms c1 by (simp add: renderHtmlPreview_def Let_def)
    then show ?thesis using c1 by auto
  next
    case (Some buf)
    show ?thesis
    proof (cases "length buf < MIN_VALID_PNG_SIZE \<and> \<not> isRecursive ?raw")
      case True
      then have "snd (renderHtmlPreview W url mimetype stampNumber tr) = tr2 @ new"
        using assms c1 c2 Some
        by (auto simp: renderHtmlPreview_def Let_def split: option.splits sum.splits)
      then show ?thesis using c1 True by auto
    next
      case False
      then have "snd (renderHtmlPreview W url mimetype stampNumber tr) = tr2"
        using assms c1 Some
        by (auto simp: renderHtmlPreview_def Let_def split: option.splits sum.splits)
      then show ?thesis using c1 by auto
    qed
  qed
qed

lemma serving_simps [simp]:
  "cf_configured (serving doc)"
  "fetch_content (serving doc) h u = Response 200 (Inr (bytes_of doc))"
  "cleanHtmlForRendering (serving doc) = id"
  "cf_worker (serving doc) h p = Response 404 (Inr [])"
  by (simp_all add: serving_def sample_world_def)

lemma serving_worker_fails:
  "renderWithCloudflare (serving doc) p tr =
     (None, tr @ [Attempt p (case req_timeout p of None \<Rightarrow> 30000 | Some t \<Rightarrow> t)])"
  using cf_loop_never_retried [of "serving doc" tr p 0]
  by (simp add: renderWithCloudflare_def never_retried_def)

lemma serving_html:
  "is_ascii doc \<Longrightarrow>
   renderHtmlPreview (serving doc) url mimetype stampNumber tr =
     (Inr None, tr @ [FetchContent url,
        Attempt (html_first_request (serving doc) (u16 doc) url)
          (case req_timeout (html_first_request (serving doc) (u16 doc) url) of None \<Rightarrow> 30000 | Some t \<Rightarrow> t)])"
  by (simp add: renderHtmlPreview_def response_ok_def serving_worker_fails Let_def)

lemmas eval_defs = hasIframe_def hasExternalRef_def hasRelativeScriptSrc_def hasStampContentRef_def
  isRecursive_def hasCanvas_def hasAnimation_def hasAsyncLoad_def isSimpleIframe_def isComplex_def
  html_delay_def rx_test_def startsWith_def rx_space_def rx_quote_def rx_not_quote_def rx_digit_def
  iframeSrcMatch_def renderUrl_def contentUrl_def strip_html_suffix_def endsWith_def toLowerCase_def
  lower_char_def html_first_request_def full_viewport_def u16_Cons

lemma sample_docs_ascii:
  "is_ascii canvas_doc" "is_ascii plain_doc" "is_ascii iframe_doc" "is_ascii unquoted_iframe_doc"
  "is_ascii data_src_doc"
  by (simp_all add: is_ascii_def canvas_doc_def plain_doc_def iframe_doc_def
      unquoted_iframe_doc_def data_src_doc_def)

lemma canvas_doc_class:
  "hasCanvas (u16 canvas_doc)" "\<not> isRecursive (u16 canvas_doc)"
  "\<not> hasAnimation (u16 canvas_doc)" "\<not> hasAsyncLoad (u16 canvas_doc)"
  by (simp_all add: canvas_doc_def eval_defs)

lemma plain_doc_class:
  "\<not> isRecursive (u16 plain_doc)" "\<not> hasCanvas (u16 plain_doc)"
  "\<not> hasAnimation (u16 plain_doc)" "\<not> hasAsyncLoad (u16 plain_doc)"
  by (simp_all add: plain_doc_def eval_defs)

lemma iframe_doc_class:
  "hasIframe (u16 iframe_doc)" "\<not> hasCanvas (u16 iframe_doc)" "\<not> hasAnimation (u16 iframe_doc)"
  "\<not> hasAsyncLoad (u16 iframe_doc)" "length (u16 iframe_doc) < 500"
  "iframeSrcMatch (u16 iframe_doc) = Some (u16 ''/s/abc'')"
  by (simp_all add: iframe_doc_def eval_defs)

lemma unquoted_iframe_doc_class:
  "hasIframe (u16 unquoted_iframe_doc)" "\<not> hasCanvas (u16 unquoted_iframe_doc)"
  "\<not> hasAnimation (u16 unquoted_iframe_doc)"
  "\<not> hasAsyncLoad (u16 unquoted_iframe_doc)" "length (u16 unquoted_iframe_doc) < 500"
  "iframeSrcMatch (u16 unquoted_iframe_doc) = None"
  by (simp_all add: unquoted_iframe_doc_def eval_defs)

lemma data_src_doc_class:
  "hasIframe (u16 data_src_doc)" "\<not> hasCanvas (u16 data_src_doc)"
  "\<not> hasAnimation (u16 data_src_doc)"
  "\<not> hasAsyncLoad (u16 data_src_doc)" "length (u16 data_src_doc) < 500"
  "iframeSrcMatch (u16 data_src_doc) = Some (u16 ''/x'')"
  by (simp_all add: data_src_doc_def eval_defs)

lemma sample_url_class:
  "\<not> js_includes sample_url ''recursive''" "\<not> js_includes sample_url ''fractal''"
  "contentUrl sample_url = ''https://stampchain.io/content/ab''"
  "js_includes fractal_url ''fractal''"
  "contentUrl fractal_url = ''https://stampchain.io/content/fractal''"
  by (simp_all add: sample_url_def fractal_url_def eval_defs)

text \<open>
  A lone byte \<^verbatim>\<open>A0\<close> is not a no-break space: it decodes to U+FFFD, which \<^verbatim>\<open>\s\<close> does
  not match, so that the search for a quoted \<^verbatim>\<open>src\<close> value finds nothing. The two bytes
  \<^verbatim>\<open>C2 A0\<close> are one, and the search passes over it.
\<close>

lemma text_of_no_break_space:
  "iframeSrcMatch (text_of (bytes_of ''<iframe src'' @ [0xA0] @ bytes_of ''=\"/s/abc\">'')) = None"
  "iframeSrcMatch (text_of (bytes_of ''<iframe src'' @ [0xC2, 0xA0] @ bytes_of ''=\"/s/abc\">''))
     = Some (u16 ''/s/abc'')"
  by (simp_all add: bytes_of_def text_of_def strip_bom_def utf16_units_def eval_defs)

lemma sample_complexity:
  "isComplex (u16 canvas_doc) sample_url"
  "\<not> isComplex (u16 plain_doc) sample_url"
  "isRecursive (u16 iframe_doc)" "isSimpleIframe (u16 iframe_doc)"
  "\<not> isComplex (u16 iframe_doc) sample_url"
  "isComplex (u16 plain_doc) fractal_url"
  "isComplex (u16 iframe_doc) fractal_url"
  "isSimpleIframe (u16 unquoted_iframe_doc)" "isRecursive (u16 unquoted_iframe_doc)"
  "\<not> isComplex (u16 unquoted_iframe_doc) sample_url"
  "isSimpleIframe (u16 data_src_doc)" "isRecursive (u16 data_src_doc)"
  "\<not> isComplex (u16 data_src_doc) sample_url"
  using canvas_doc_class plain_doc_class iframe_doc_class unquoted_iframe_doc_class
    data_src_doc_class sample_url_class
  by (simp_all add: isComplex_def isSimpleIframe_def isRecursive_def)

text \<open>
  Claim C6, as the code has it. When the worker is configured and the fetch succeeds, the
  first request to the rendering worker follows the fetch. Its post-load delay is 8000 ms for
  content that is complex in the sense of \<open>isComplex\<close> (recursive and not a simple iframe
  wrapper, or with a canvas indicator, or with \<^verbatim>\<open>recursive\<close> or \<^verbatim>\<open>fractal\<close> in its
  URL). Its timeout goes with the mode, not with the complexity: 45000 ms for recursive
  content, which is rendered by URL, and the default 30000 ms for the rest, which is sent
  inline. Content that is not complex and has no animation or asynchronous-load indicator
  gets a delay of 3000 ms.
\<close>

theorem html_first_request_timing:
  assumes "cf_configured W" and "fetch_content W tr url = Response st (Inr bytes)" and "response_ok st"
  shows "(\<exists>rest. snd (renderHtmlPreview W url mimetype stampNumber tr) =
            tr @ [FetchContent url,
                  Attempt (html_first_request W (text_of bytes) url)
                    (if isRecursive (text_of bytes) then 45000 else 30000)] @ rest) \<and>
         (isComplex (text_of bytes) url \<longrightarrow>
            req_delay (html_first_request W (text_of bytes) url) = Some 8000) \<and>
         (isRecursive (text_of bytes) \<longrightarrow>
            req_timeout (html_first_request W (text_of bytes) url) = Some 45000 \<and>
            req_url (html_first_request W (text_of bytes) url) = Some (renderUrl (text_of bytes) url) \<and>
            req_html (html_first_request W (text_of bytes) url) = None) \<and>
         (\<not> isRecursive (text_of bytes) \<longrightarrow>
            req_timeout (html_first_request W (text_of bytes) url) = None \<and>
            req_url (html_first_request W (text_of bytes) url) = None \<and>
            req_html (html_first_request W (text_of bytes) url) = Some (cleanHtmlForRendering W (text_of bytes))) \<and>
         (\<not> isComplex (text_of bytes) url \<and> \<not> hasAnimation (text_of bytes) \<and> \<not> hasAsyncLoad (text_of bytes) \<longrightarrow>
            req_delay (html_first_request W (text_of bytes) url) = Some 3000)"
proof -
  let ?raw = "text_of bytes"
  let ?req = "html_first_request W ?raw url"
  obtain r tr2 rest where t: "renderWithCloudflare W ?req (tr @ [FetchContent url]) = (r, tr2)"
      "snd (renderHtmlPreview W url mimetype stampNumber tr) = tr2 @ rest"
    using renderHtmlPreview_trace [OF assms] by blast
  obtain r' new where e: "renderWithCloudflare W ?req (tr @ [FetchContent url]) = (r', (tr @ [FetchContent url]) @ new)"
      "new \<noteq> []" "hd new = Attempt ?req (case req_timeout ?req of None \<Rightarrow> 30000 | Some t \<Rightarrow> t)"
    using renderWithCloudflare_events [of W ?req "tr @ [FetchContent url]"] assms(1) by blast
  have ft: "(case req_timeout ?req of None \<Rightarrow> 30000 | Some t \<Rightarrow> t) = (if isRecursive ?raw then 45000 else 30000)"
    by (simp add: html_first_request_def)
  obtain new' where new: "new = Attempt ?req (if isRecursive ?raw then 45000 else 30000) # new'"
    using e(2,3) ft by (cases new) auto
  have "snd (renderHtmlPreview W url mimetype stampNumber tr) =
      tr @ [FetchContent url, Attempt ?req (if isRecursive ?raw then 45000 else 30000)] @ (new' @ rest)"
    using t e(1) new by simp
  then have 1: "\<exists>rest. snd (renderHtmlPreview W url mimetype stampNumber tr) =
      tr @ [FetchContent url, Attempt ?req (if isRecursive ?raw then 45000 else 30000)] @ rest"
    by blast
  show ?thesis
    using 1 by (simp add: html_first_request_def html_delay_def)
qed

text \<open>The theorem for a canvas document, a plain document and an iframe wrapper.\<close>

theorem html_first_request_timing_witness:
  "cf_configured (serving canvas_doc) \<and>
   fetch_content (serving canvas_doc) [] sample_url = Response 200 (Inr (bytes_of canvas_doc)) \<and>
   response_ok 200 \<and>
   isComplex (text_of (bytes_of canvas_doc)) sample_url \<and>
   \<not> isRecursive (text_of (bytes_of canvas_doc)) \<and>
   req_delay (html_first_request (serving canvas_doc) (text_of (bytes_of canvas_doc)) sample_url) = Some 8000 \<and>
   req_timeout (html_first_request (serving canvas_doc) (text_of (bytes_of canvas_doc)) sample_url) = None \<and>
   cf_configured (serving plain_doc) \<and>
   fetch_content (serving plain_doc) [] sample_url = Response 200 (Inr (bytes_of plain_doc)) \<and>
   \<not> isComplex (text_of (bytes_of plain_doc)) sample_url \<and>
   \<not> hasAnimation (text_of (bytes_of plain_doc)) \<and> \<not> hasAsyncLoad (text_of (bytes_of plain_doc)) \<and>
   req_delay (html_first_request (serving plain_doc) (text_of (bytes_of plain_doc)) sample_url) = Some 3000 \<and>
   cf_configured (serving iframe_doc) \<and>
   fetch_content (serving iframe_doc) [] sample_url = Response 200 (Inr (bytes_of iframe_doc)) \<and>
   isRecursive (text_of (bytes_of iframe_doc)) \<and>
   req_timeout (html_first_request (serving iframe_doc) (text_of (bytes_of iframe_doc)) sample_url) = Some 45000"
proof -
  have ok: "response_ok 200" by (simp add: response_ok_def)
  note a = html_first_request_timing [of "serving canvas_doc" "[]" sample_url 200 "bytes_of canvas_doc" "''text/html''" None, OF _ _ ok]
  note b = html_first_request_timing [of "serving plain_doc" "[]" sample_url 200 "bytes_of plain_doc" "''text/html''" None, OF _ _ ok]
  note c = html_first_request_timing [of "serving iframe_doc" "[]" sample_url 200 "bytes_of iframe_doc" "''text/html''" None, OF _ _ ok]
  show ?thesis
    using a b c ok sample_complexity canvas_doc_class plain_doc_class
    by (simp add: sample_docs_ascii)
qed

text \<open>
  The claim as the spec words it fails in three ways. A document with a canvas is complex,
  and its one request is made with a delay of 8000 ms but without the 45000 ms timeout. A
  simple iframe wrapper is flagged recursive, and its request is made with a delay of
  3000 ms. A plain document without any indicator, at a URL with \<^verbatim>\<open>fractal\<close> in it, is
  rendered with a delay of 8000 ms.
\<close>

theorem html_complex_timeout_counterexample:
  "hasCanvas (text_of (bytes_of canvas_doc)) \<and>
   renderHtmlPreview (serving canvas_doc) sample_url ''text/html'' (Some 1) [] =
     (Inr None,
      [FetchContent sample_url,
       Attempt \<lparr>req_url = None, req_html = Some (u16 canvas_doc), req_viewport = Some (1200, 1200),
                req_delay = Some 8000, req_timeout = None\<rparr> 30000]) \<and>
   isRecursive (text_of (bytes_of iframe_doc)) \<and>
   renderHtmlPreview (serving iframe_doc) sample_url ''text/html'' (Some 1) [] =
     (Inr None,
      [FetchContent sample_url,
       Attempt \<lparr>req_url = Some (u16 ''https://stampchain.io/s/abc''), req_html = None,
                req_viewport = Some (1200, 1200), req_delay = Some 3000, req_timeout = Some 45000\<rparr> 45000]) \<and>
   \<not> isRecursive (text_of (bytes_of plain_doc)) \<and> \<not> hasCanvas (text_of (bytes_of plain_doc)) \<and>
   \<not> hasAnimation (text_of (bytes_of plain_doc)) \<and> \<not> hasAsyncLoad (text_of (bytes_of plain_doc)) \<and>
   renderHtmlPreview (serving plain_doc) fractal_url ''text/html'' (Some 1) [] =
     (Inr None,
      [FetchContent fractal_url,
       Attempt \<lparr>req_url = None, req_html = Some (u16 plain_doc), req_viewport = Some (1200, 1200),
                req_delay = Some 8000, req_timeout = None\<rparr> 30000])"
proof -
  have 1: "html_first_request (serving canvas_doc) (u16 canvas_doc) sample_url =
      \<lparr>req_url = None, req_html = Some (u16 canvas_doc), req_viewport = Some (1200, 1200),
       req_delay = Some 8000, req_timeout = None\<rparr>"
    using canvas_doc_class sample_complexity
    by (simp add: html_first_request_def html_delay_def full_viewport_def)
  have 2: "html_first_request (serving iframe_doc) (u16 iframe_doc) sample_url =
      \<lparr>req_url = Some (u16 ''https://stampchain.io/s/abc''), req_html = None,
       req_viewport = Some (1200, 1200), req_delay = Some 3000, req_timeout = Some 45000\<rparr>"
    using iframe_doc_class(6) sample_complexity
    by (simp add: html_first_request_def html_delay_def full_viewport_def renderUrl_def
        startsWith_def u16_Cons)
  have 3: "html_first_request (serving plain_doc) (u16 plain_doc) fractal_url =
      \<lparr>req_url = None, req_html = Some (u16 plain_doc), req_viewport = Some (1200, 1200),
       req_delay = Some 8000, req_timeout = None\<rparr>"
    using plain_doc_class sample_complexity
    by (simp add: html_first_request_def html_delay_def full_viewport_def)
  show ?thesis
    using canvas_doc_class plain_doc_class sample_complexity
    by (simp add: serving_html sample_docs_ascii 1 2 3)
qed




subsection \<open>Failure memoization in the cache layer\<close>

lemma handleCache_hit:
  "cache_get st key = Some v \<Longrightarrow> handleCache key fetchFn ttl st = (Inr v, st)"
  by (simp add: handleCache_def)

lemma handleCache_miss:
  "cache_get st key = None \<Longrightarrow> fetchFn st = (Inr v, st') \<Longrightarrow>
   handleCache key fetchFn ttl st = (Inr v, cache_set key v ttl st')"
  by (simp add: handleCache_def)

lemma retry_state:
  assumes "pattern_matches R key key"
    and "do_render R ident (invalidateCacheByPattern R key st) = (r, st4)"
  shows "cache_get st4 key = None"
    and "log st4 = log st @ [Invalidated key, Rendered ident]"
    and "clock st4 = clock st + snd (render R ident (clock st))"
    and "r = fst (render R ident (clock st))"
  using assms
  by (auto simp: do_render_def invalidateCacheByPattern_def cache_get_def
      split: prod.splits)

lemma cache_set_facts:
  "0 < ttl \<Longrightarrow> cache_get (cache_set key v ttl st) key = Some v"
  "log (cache_set key v ttl st) = log st @ [CacheSet key v]"
  "clock (cache_set key v ttl st) = clock st"
  by (simp_all add: cache_set_def cache_get_def)

lemma retry_after_failure_result:
  assumes "pattern_matches R key key"
    and "do_render R ident (invalidateCacheByPattern R key st) = (Inr result, st4)"
  shows "\<exists>response. retry_after_failure R ident key st =
      (response, cache_set key
         (case result of
            None \<Rightarrow> FailedRender (clock st4)
          | Some preview \<Rightarrow> if png preview \<noteq> [] then Preview preview else FailedRender (clock st4))
         604800 st4)"
proof -
  have miss: "cache_get st4 key = None"
    using retry_state(1) [OF assms] .
  have s: "handleCache key (\<lambda>s. (Inr (FailedRender (clock s)), s)) 604800 st4 =
      (Inr (FailedRender (clock st4)), cache_set key (FailedRender (clock st4)) 604800 st4)"
    by (rule handleCache_miss [OF miss]) simp
  have p: "handleCache key (\<lambda>s. (Inr (Preview preview), s)) 604800 st4 =
      (Inr (Preview preview), cache_set key (Preview preview) 604800 st4)" for preview
    by (rule handleCache_miss [OF miss]) simp
  show ?thesis
    using assms(2) s p
    by (auto simp: retry_after_failure_def Let_def split: option.splits sum.splits)
qed

text \<open>
  What the cache layer does with a live failure sentinel when the request does not force a
  refresh. A sentinel younger than 3600 seconds gives the redirect to the fallback logo and
  leaves the state as it was: no render, no write. With a sentinel of 3600 seconds or more,
  the entry is invalidated and the render runs exactly once; when the render returns, its
  result is persisted: the preview if it has PNG data, a new sentinel stamped with the time
  after the render otherwise. An error of the render leaves the function after the
  invalidation and the render, before any write.
\<close>

lemma failure_sentinel_window:
  assumes "cache st (''preview:'' @ ident) = Some (FailedRender timestamp, expires)"
    and "clock st < expires"
    and "pattern_matches R (''preview:'' @ ident) (''preview:'' @ ident)"
  shows "(clock st - timestamp < 3600 * 1000 \<longrightarrow>
            (\<exists>headers. handleRedisPreview R ident False st = (Inr (Redirect FALLBACK_LOGO headers), st))) \<and>
         (3600 * 1000 \<le> clock st - timestamp \<longrightarrow>
            (\<exists>response st'.
               handleRedisPreview R ident False st = (response, st') \<and>
               clock st' = clock st + snd (render R ident (clock st)) \<and>
               (case fst (render R ident (clock st)) of
                  Inl e \<Rightarrow>
                    response = Inl e \<and>
                    log st' = log st @ [Invalidated (''preview:'' @ ident), Rendered ident]
                | Inr result \<Rightarrow>
                    (\<exists>v. v = (case result of
                                None \<Rightarrow> FailedRender (clock st')
                              | Some preview \<Rightarrow>
                                  if png preview \<noteq> [] then Preview preview else FailedRender (clock st')) \<and>
                         log st' = log st @ [Invalidated (''preview:'' @ ident), Rendered ident,
                                             CacheSet (''preview:'' @ ident) v] \<and>
                         cache_get st' (''preview:'' @ ident) = Some v))))"
proof (intro conjI impI)
  let ?key = "''preview:'' @ ident"
  have hit: "handleCache ?key (render_or_sentinel R ident) 604800 st = (Inr (FailedRender timestamp), st)"
    using assms(1,2) by (intro handleCache_hit) (simp add: cache_get_def)
  {
    assume "clock st - timestamp < 3600 * 1000"
    then show "\<exists>headers. handleRedisPreview R ident False st = (Inr (Redirect FALLBACK_LOGO headers), st)"
      using hit by (simp add: handleRedisPreview_def Let_def FAILED_RENDER_TTL_def)
  }
  assume old: "3600 * 1000 \<le> clock st - timestamp"
  have h: "handleRedisPreview R ident False st = retry_after_failure R ident ?key st"
    using hit old by (simp add: handleRedisPreview_def Let_def FAILED_RENDER_TTL_def)
  obtain r st4 where d: "do_render R ident (invalidateCacheByPattern R ?key st) = (r, st4)"
    by (cases "do_render R ident (invalidateCacheByPattern R ?key st)")
  note f = retry_state [OF assms(3) d]
  show "\<exists>response st'.
               handleRedisPreview R ident False st = (response, st') \<and>
               clock st' = clock st + snd (render R ident (clock st)) \<and>
               (case fst (render R ident (clock st)) of
                  Inl e \<Rightarrow>
                    response = Inl e \<and>
                    log st' = log st @ [Invalidated ?key, Rendered ident]
                | Inr result \<Rightarrow>
                    (\<exists>v. v = (case result of
                                None \<Rightarrow> FailedRender (clock st')
                              | Some preview \<Rightarrow>
                                  if png preview \<noteq> [] then Preview preview else FailedRender (clock st')) \<and>
                         log st' = log st @ [Invalidated ?key, Rendered ident, CacheSet ?key v] \<and>
                         cache_get st' ?key = Some v))"
  proof (cases r)
    case (Inl e)
    then show ?thesis
      using h d f by (simp add: retry_after_failure_def)
  next
    case (Inr result)
    let ?v = "case result of
                None \<Rightarrow> FailedRender (clock st4)
              | Some preview \<Rightarrow> if png preview \<noteq> [] then Preview preview else FailedRender (clock st4)"
    have fr: "fst (render R ident (clock st)) = Inr result"
      using f(4) Inr by simp
    obtain response where rr:
      "retry_after_failure R ident ?key st = (response, cache_set ?key ?v 604800 st4)"
      using retry_after_failure_result [OF assms(3) d [unfolded Inr]] by blast
    show ?thesis
      by (intro exI [of _ response] exI [of _ "cache_set ?key ?v 604800 st4"])
        (simp add: h rr fr cache_set_facts f(2,3) del: append.simps split: option.splits)
  qed
qed

text \<open>
  Claim C2 at an input where the code departs from it. The cache holds a failure sentinel
  of 4000 seconds for the stamp \<open>a\<close>, a PNG image, and the fetch of its content throws a
  network error. The fetch of \<open>renderRasterPreview\<close> stands before its \<^verbatim>\<open>try\<close> block,
  so \<open>renderPreview\<close> throws where its documentation promises \<open>null\<close>. The route
  invalidates the entry and renders once; the error leaves \<open>handleRedisPreview\<close>, and
  neither a preview nor a new sentinel is written: the cache holds nothing for the stamp.
\<close>

theorem expired_sentinel_render_throws:
  "cache_get (marked_store 4000000) ''preview:a'' = Some (FailedRender 0) \<and>
   3600 * 1000 \<le> clock (marked_store 4000000) - 0 \<and>
   renderPreview unreachable_world ''a'' [] =
     (Inl (JsError ''TypeError'' ''fetch failed''),
      [Resolve ''a'', FetchContent ''https://stampchain.io/stamps/ab.png'']) \<and>
   fst (handleRedisPreview (world_renderer unreachable_world 5) ''a'' False (marked_store 4000000)) =
     Inl (JsError ''TypeError'' ''fetch failed'') \<and>
   log (snd (handleRedisPreview (world_renderer unreachable_world 5) ''a'' False (marked_store 4000000))) =
     [Invalidated ''preview:a'', Rendered ''a''] \<and>
   cache_get (snd (handleRedisPreview (world_renderer unreachable_world 5) ''a'' False (marked_store 4000000)))
     ''preview:a'' = None"
proof -
  have r: "renderPreview unreachable_world ''a'' [] =
     (Inl (JsError ''TypeError'' ''fetch failed''),
      [Resolve ''a'', FetchContent ''https://stampchain.io/stamps/ab.png''])"
    by (simp add: renderPreview_def renderRasterPreview_def unreachable_world_def stamp_world_def
        serving_def sample_world_def startsWith_def Let_def)
  show ?thesis
    unfolding r
    by (simp add: handleRedisPreview_def retry_after_failure_def handleCache_def cache_get_def
        do_render_def invalidateCacheByPattern_def marked_store_def world_renderer_def r
        FAILED_RENDER_TTL_def Let_def)
qed

end
